theory Spec2Isabelle
  imports Main "HOL-Library.AList"
begin

unbundle bit_operations_syntax

section \<open>Go library functions the rotating writer calls\<close>

text \<open>
  The writer (\<^verbatim>\<open>RotateWriter\<close>, package \<^verbatim>\<open>log\<close>) works on byte strings, on
  the clock and on one directory of the file system. This section models the functions of
  Go's standard library it calls, on the values it calls them with: a Go \<^verbatim>\<open>string\<close>
  and a \<^verbatim>\<open>[]byte\<close> are lists of bytes (\<^typ>\<open>string\<close>), a \<^verbatim>\<open>time.Time\<close> is
  the number of nanoseconds since 1970-01-01 00:00 UTC, and the local zone is UTC.
\<close>

subsection \<open>strings, strconv and fmt\<close>

definition HasPrefix :: "string \<Rightarrow> string \<Rightarrow> bool" where
  "HasPrefix s p = (length p \<le> length s \<and> take (length p) s = p)"

definition HasSuffix :: "string \<Rightarrow> string \<Rightarrow> bool" where
  "HasSuffix s x = (length x \<le> length s \<and> drop (length s - length x) s = x)"

text \<open>\<^verbatim>\<open>strings.Split(s, sep)\<close> for a one-byte separator: the empty string gives one empty part.\<close>

fun Split :: "string \<Rightarrow> char \<Rightarrow> string list" where
  "Split [] c = [[]]"
| "Split (x # xs) c =
     (if x = c then [] # Split xs c
      else (case Split xs c of [] \<Rightarrow> [[x]] | y # ys \<Rightarrow> (x # y) # ys))"

fun Join :: "string list \<Rightarrow> string \<Rightarrow> string" where
  "Join [] sep = []"
| "Join [x] sep = x"
| "Join (x # y # ys) sep = x @ sep @ Join (y # ys) sep"

definition digit :: "nat \<Rightarrow> char" where
  "digit d = ''0123456789'' ! d"

text \<open>The verb \<^verbatim>\<open>%d\<close> of \<^verbatim>\<open>fmt.Sprintf\<close> on a non-negative integer.\<close>

function itoa :: "nat \<Rightarrow> string" where
  "itoa n = (if n < 10 then [digit n] else itoa (n div 10) @ [digit (n mod 10)])"
  by pat_completeness auto
termination
  by (relation "measure (\<lambda>n. n)") auto

declare itoa.simps [simp del]

text \<open>\<^verbatim>\<open>appendInt(b, x, width)\<close> of package time: decimal, zero-padded to the width.\<close>

definition pad :: "nat \<Rightarrow> nat \<Rightarrow> string" where
  "pad width n = replicate (width - length (itoa n)) (CHR ''0'') @ itoa n"

definition isDigit :: "char \<Rightarrow> bool" where
  "isDigit c = (c \<in> set ''0123456789'')"

definition digitVal :: "char \<Rightarrow> nat" where
  "digitVal c = of_char c - 48"

definition atoi :: "string \<Rightarrow> nat" where
  "atoi s = foldl (\<lambda>a c. 10 * a + digitVal c) 0 s"

subsection \<open>time: the layout 2006-01-02\<close>

definition nsPerDay :: int where
  "nsPerDay = 86400000000000"

definition Hour :: int where
  "Hour = 3600000000000"

definition isLeap :: "nat \<Rightarrow> bool" where
  "isLeap y = (y mod 4 = 0 \<and> (y mod 400 = 0 \<or> y mod 100 \<noteq> 0))"

definition daysInYear :: "nat \<Rightarrow> nat" where
  "daysInYear y = (if isLeap y then 366 else 365)"

definition monthLengths :: "nat \<Rightarrow> nat list" where
  "monthLengths y = [31, if isLeap y then 29 else 28, 31, 30, 31, 30, 31, 31, 30, 31, 30, 31]"

text \<open>The year of day \<open>d\<close>, counted from 1 January of year \<open>y\<close>, and the day within it.\<close>

function yearOf :: "nat \<Rightarrow> nat \<Rightarrow> nat \<times> nat" where
  "yearOf y d = (if daysInYear y \<le> d then yearOf (Suc y) (d - daysInYear y) else (y, d))"
  by pat_completeness auto
termination
  by (relation "measure (\<lambda>(y, d). d)") (auto simp: daysInYear_def)

declare yearOf.simps [simp del]

fun monthOf :: "nat list \<Rightarrow> nat \<Rightarrow> nat \<Rightarrow> nat \<times> nat" where
  "monthOf [] m d = (m, Suc d)"
| "monthOf (l # ls) m d = (if d < l then (m, Suc d) else monthOf ls (Suc m) (d - l))"

text \<open>Year, month and day of an instant at or after 1970-01-01.\<close>

definition civil :: "int \<Rightarrow> nat \<times> nat \<times> nat" where
  "civil t =
     (case yearOf 1970 (nat (t div nsPerDay)) of
        (y, doy) \<Rightarrow> (case monthOf (monthLengths y) 1 doy of (m, d) \<Rightarrow> (y, m, d)))"

text \<open>\<^verbatim>\<open>t.Format("2006-01-02")\<close>.\<close>

definition Format :: "int \<Rightarrow> string" where
  "Format t = (case civil t of (y, m, d) \<Rightarrow> pad 4 y @ ''-'' @ pad 2 m @ ''-'' @ pad 2 d)"

definition leapsBefore :: "int \<Rightarrow> int" where
  "leapsBefore y = (y - 1) div 4 - (y - 1) div 100 + (y - 1) div 400"

text \<open>\<^verbatim>\<open>time.Date(year, month, day, 0, 0, 0, 0, time.UTC)\<close> for a valid date.\<close>

definition Date :: "nat \<Rightarrow> nat \<Rightarrow> nat \<Rightarrow> int" where
  "Date y m d =
     (365 * (int y - 1970) + (leapsBefore (int y) - leapsBefore 1970)
        + int (sum_list (take (m - 1) (monthLengths y))) + (int d - 1)) * nsPerDay"

text \<open>
  \<^verbatim>\<open>time.Parse("2006-01-02", s)\<close>: four digits, a dash, two digits, a dash, two digits and
  nothing after them; the month is 1 to 12 and the day exists in that month. \<open>None\<close> is
  the parse error.
\<close>

fun Parse :: "string \<Rightarrow> int option" where
  "Parse (y1 # y2 # y3 # y4 # c1 # m1 # m2 # c2 # d1 # d2 # rest) =
     (let year = atoi [y1, y2, y3, y4]; month = atoi [m1, m2]; day = atoi [d1, d2] in
      if list_all isDigit [y1, y2, y3, y4, m1, m2, d1, d2]
         \<and> c1 = CHR ''-'' \<and> c2 = CHR ''-'' \<and> rest = []
         \<and> 1 \<le> month \<and> month \<le> 12
         \<and> 1 \<le> day \<and> day \<le> monthLengths year ! (month - 1)
      then Some (Date year month day) else None)"
| "Parse _ = None"

subsection \<open>path/filepath, on Unix\<close>

text \<open>
  \<^verbatim>\<open>filepath.Ext\<close> walks back from the end of the path to the last separator and
  returns the suffix that starts at the first dot it meets.
\<close>

fun ext_scan :: "string \<Rightarrow> string \<Rightarrow> string" where
  "ext_scan [] acc = []"
| "ext_scan (c # cs) acc =
     (if c = CHR ''/'' then []
      else if c = CHR ''.'' then c # acc
      else ext_scan cs (c # acc))"

definition Ext :: "string \<Rightarrow> string" where
  "Ext path = ext_scan (rev path) []"

text \<open>
  \<^verbatim>\<open>filepath.Base\<close>: the last element of the path, trailing separators removed;
  \<^verbatim>\<open>"."\<close> for the empty path and \<^verbatim>\<open>"/"\<close> for a path of separators only.
\<close>

definition Base :: "string \<Rightarrow> string" where
  "Base path =
     (if path = [] then ''.''
      else (let stripped = dropWhile (\<lambda>c. c = CHR ''/'') (rev path);
                last_elem = rev (takeWhile (\<lambda>c. c \<noteq> CHR ''/'') stripped)
            in if last_elem = [] then ''/'' else last_elem))"

subsection \<open>Machine integers\<close>

text \<open>
  \<^verbatim>\<open>int64\<close> arithmetic wraps. \<^verbatim>\<open>int\<close> is 64 bits wide on the platforms considered,
  so the conversions \<^verbatim>\<open>int64(len(p))\<close> and \<^verbatim>\<open>int64(w.maxAge)\<close> change nothing.
\<close>

definition wrap64 :: "int \<Rightarrow> int" where
  "wrap64 x = (x + 2 ^ 63) mod 2 ^ 64 - 2 ^ 63"

subsection \<open>os: one directory, with failures\<close>

text \<open>
  The world is the directory \<^verbatim>\<open>filepath.Dir(w.filename)\<close>: \<open>None\<close> while it
  does not exist, otherwise its entries by name, in the order \<^verbatim>\<open>os.ReadDir\<close>
  lists them. The path \<^verbatim>\<open>w.filename\<close> is the entry \<^verbatim>\<open>filepath.Base(w.filename)\<close>
  of that directory, and \<^verbatim>\<open>filepath.Join(dir, name)\<close> is the entry \<open>name\<close>.
  An open \<^verbatim>\<open>*os.File\<close> is the name of the entry it was opened on; the writer is the
  only process that touches the directory.

  Every system call may fail for a reason the directory does not show (permissions, a
  full disk, an I/O error). \<open>faults s k\<close> is the schedule of such failures for the
  calls of kind \<open>k\<close>: each call takes the head of its list, \<open>None\<close> lets the call
  run, \<open>Some n\<close> makes it fail (for a write, after \<open>n\<close> bytes), and an empty
  schedule means no more failures. \<open>spawned\<close> lists the backups for which a
  compression goroutine was started. \<open>umask\<close> is the file mode creation mask of the
  process: a file that \<^verbatim>\<open>open(2)\<close> creates gets the permission bits asked for
  that are not in the mask.
\<close>

datatype op = OpStat | OpMkdirAll | OpRename | OpOpenAppend | OpCreate | OpReadDir
  | OpRemove | OpClose | OpWrite

record node =
  content :: string
  perm :: nat
  isdir :: bool

record world =
  dir :: "(string \<times> node) list option"
  clock :: int
  faults :: "op \<Rightarrow> nat option list"
  spawned :: "string list"
  umask :: nat

datatype 'a stat = Found 'a | NotExist | Failed

definition entries :: "world \<Rightarrow> (string \<times> node) list" where
  "entries s = (case dir s of None \<Rightarrow> [] | Some es \<Rightarrow> es)"

definition lookup :: "world \<Rightarrow> string \<Rightarrow> node option" where
  "lookup s name = map_of (entries s) name"

definition fault :: "op \<Rightarrow> world \<Rightarrow> nat option \<times> world" where
  "fault k s =
     (case faults s k of
        [] \<Rightarrow> (None, s)
      | f # fs \<Rightarrow> (f, s\<lparr>faults := (faults s)(k := fs)\<rparr>))"

definition os_Stat :: "string \<Rightarrow> world \<Rightarrow> node stat \<times> world" where
  "os_Stat name s =
     (case fault OpStat s of
        (Some k, s1) \<Rightarrow> (Failed, s1)
      | (None, s1) \<Rightarrow>
          (case lookup s1 name of None \<Rightarrow> (NotExist, s1) | Some nd \<Rightarrow> (Found nd, s1)))"

definition os_MkdirAll :: "world \<Rightarrow> bool \<times> world" where
  "os_MkdirAll s =
     (case fault OpMkdirAll s of
        (Some k, s1) \<Rightarrow> (False, s1)
      | (None, s1) \<Rightarrow> (True, s1\<lparr>dir := Some (entries s1)\<rparr>))"

definition os_Rename :: "string \<Rightarrow> string \<Rightarrow> world \<Rightarrow> bool \<times> world" where
  "os_Rename old new s =
     (case fault OpRename s of
        (Some k, s1) \<Rightarrow> (False, s1)
      | (None, s1) \<Rightarrow>
          (case lookup s1 old of
             None \<Rightarrow> (False, s1)
           | Some nd \<Rightarrow>
               (True, s1\<lparr>dir := Some (AList.update new nd (AList.delete old (entries s1)))\<rparr>)))"

text \<open>\<^verbatim>\<open>os.OpenFile(name, O_APPEND|O_WRONLY, 0644)\<close>: the entry must be a regular file.\<close>

definition os_OpenAppend :: "string \<Rightarrow> world \<Rightarrow> string option \<times> world" where
  "os_OpenAppend name s =
     (case fault OpOpenAppend s of
        (Some k, s1) \<Rightarrow> (None, s1)
      | (None, s1) \<Rightarrow>
          (case lookup s1 name of
             None \<Rightarrow> (None, s1)
           | Some nd \<Rightarrow> (if isdir nd then None else Some name, s1)))"

text \<open>
  \<^verbatim>\<open>os.OpenFile(name, O_CREATE|O_WRONLY|O_TRUNC, mode)\<close>: an existing regular file is
  emptied and keeps its mode, a missing one is created with \<^verbatim>\<open>mode &^ umask\<close>.
\<close>

definition os_Create :: "string \<Rightarrow> nat \<Rightarrow> world \<Rightarrow> string option \<times> world" where
  "os_Create name mode s =
     (case fault OpCreate s of
        (Some k, s1) \<Rightarrow> (None, s1)
      | (None, s1) \<Rightarrow>
          (case dir s1 of
             None \<Rightarrow> (None, s1)
           | Some es \<Rightarrow>
               (case map_of es name of
                  None \<Rightarrow>
                    (Some name,
                     s1\<lparr>dir := Some (AList.update name
                                      \<lparr>content = [], perm = mode - (mode AND umask s1),
                                       isdir = False\<rparr> es)\<rparr>)
                | Some nd \<Rightarrow>
                    (if isdir nd then (None, s1)
                     else (Some name,
                           s1\<lparr>dir := Some (AList.update name (nd\<lparr>content := []\<rparr>) es)\<rparr>)))))"

definition os_ReadDir :: "world \<Rightarrow> (string \<times> bool) list option \<times> world" where
  "os_ReadDir s =
     (case fault OpReadDir s of
        (Some k, s1) \<Rightarrow> (None, s1)
      | (None, s1) \<Rightarrow>
          (case dir s1 of
             None \<Rightarrow> (None, s1)
           | Some es \<Rightarrow> (Some (map (\<lambda>(name, nd). (name, isdir nd)) es), s1)))"

definition os_Remove :: "string \<Rightarrow> world \<Rightarrow> bool \<times> world" where
  "os_Remove name s =
     (case fault OpRemove s of
        (Some k, s1) \<Rightarrow> (False, s1)
      | (None, s1) \<Rightarrow>
          (case lookup s1 name of
             None \<Rightarrow> (False, s1)
           | Some nd \<Rightarrow> (True, s1\<lparr>dir := Some (AList.delete name (entries s1))\<rparr>)))"

definition os_Close :: "string \<Rightarrow> world \<Rightarrow> bool \<times> world" where
  "os_Close h s = (case fault OpClose s of (Some k, s1) \<Rightarrow> (False, s1) | (None, s1) \<Rightarrow> (True, s1))"

datatype error =
    ErrWriteTooLong int int
  | ErrStat
  | ErrMkdir
  | ErrRename
  | ErrOpenNew
  | ErrReadDir
  | ErrMismatchedPrefix
  | ErrMismatchedExt
  | ErrInvalidTimestamp
  | ErrParse
  | ErrClose
  | ErrIO
  | ErrInvalid
  | PanicSliceBounds

text \<open>
  \<^verbatim>\<open>f.Write(p)\<close> on an open file: the bytes are appended to the entry. A failing write
  leaves the bytes it wrote before the failure.
\<close>

definition file_Write :: "string \<Rightarrow> string \<Rightarrow> world \<Rightarrow> (nat \<times> error option) \<times> world" where
  "file_Write h p s =
     (case fault OpWrite s of (f, s1) \<Rightarrow>
        (case lookup s1 h of
           None \<Rightarrow> ((0, Some ErrIO), s1)
         | Some nd \<Rightarrow>
             (if isdir nd then ((0, Some ErrIO), s1)
              else (case f of
                      None \<Rightarrow>
                        ((length p, None),
                         s1\<lparr>dir := Some (AList.update h (nd\<lparr>content := content nd @ p\<rparr>)
                                          (entries s1))\<rparr>)
                    | Some k \<Rightarrow>
                        ((min k (length p), Some ErrIO),
                         s1\<lparr>dir := Some (AList.update h
                                          (nd\<lparr>content := content nd @ take k p\<rparr>)
                                          (entries s1))\<rparr>)))))"

section \<open>The rotating writer\<close>

text \<open>
  The struct \<^verbatim>\<open>RotateWriter\<close>; its fields \<^verbatim>\<open>file\<close> and \<^verbatim>\<open>size\<close> are
  \<open>cur_file\<close> and \<open>cur_size\<close> here. Each method takes the writer and the world
  and returns both with its result; the mutex is not modelled, one call runs at a time.
\<close>

record RotateWriter =
  filename :: string
  maxSize :: int
  maxAge :: int
  maxBackups :: int
  compress :: bool
  cur_file :: "string option"
  cur_size :: int

definition NewRotateWriter :: "string \<Rightarrow> int \<Rightarrow> int \<Rightarrow> int \<Rightarrow> bool \<Rightarrow> RotateWriter" where
  "NewRotateWriter fname msize mage mbackups cflag =
     \<lparr>filename = fname,
      maxSize = wrap64 (wrap64 (msize * 1024) * 1024),
      maxAge = mage,
      maxBackups = mbackups,
      compress = cflag,
      cur_file = None,
      cur_size = 0\<rparr>"

definition close :: "RotateWriter \<Rightarrow> world \<Rightarrow> RotateWriter \<times> world \<times> error option" where
  "close w s =
     (case cur_file w of
        None \<Rightarrow> (w, s, None)
      | Some h \<Rightarrow>
          (case os_Close h s of
             (ok, s1) \<Rightarrow> (w\<lparr>cur_file := None\<rparr>, s1, if ok then None else Some ErrClose)))"

definition prefixAndExt :: "RotateWriter \<Rightarrow> string \<times> string" where
  "prefixAndExt w =
     (let fname = Base (filename w);
          ext = Ext fname;
          prefix = take (length fname - length ext) fname @ ''-''
      in (prefix, ext))"

text \<open>
  The slice \<^verbatim>\<open>filename[len(prefix) : len(filename)-len(ext)]\<close> panics when the prefix and
  the extension overlap in the name.
\<close>

definition timeFromName :: "string \<Rightarrow> string \<Rightarrow> string \<Rightarrow> error + int" where
  "timeFromName fname prefix ext =
     (if HasPrefix fname prefix then
        (if HasSuffix fname ext then
           (if length fname - length ext < length prefix then Inl PanicSliceBounds
            else (let ts = take (length fname - length ext - length prefix)
                             (drop (length prefix) fname);
                      parts = Split ts (CHR ''-'')
                  in if length parts < 4 then Inl ErrInvalidTimestamp
                     else (case Parse (Join (take 3 (drop 1 parts)) ''-'') of
                             None \<Rightarrow> Inl ErrParse
                           | Some t \<Rightarrow> Inr t)))
         else Inl ErrMismatchedExt)
      else Inl ErrMismatchedPrefix)"

record logInfo =
  timestamp :: int
  entry_name :: string

text \<open>The loop of \<^verbatim>\<open>oldLogFiles\<close> over the directory listing.\<close>

fun collect :: "string \<Rightarrow> string \<Rightarrow> (string \<times> bool) list \<Rightarrow> logInfo list \<Rightarrow> error + logInfo list" where
  "collect prefix ext [] logFiles = Inr logFiles"
| "collect prefix ext ((fname, is_dir) # fs) logFiles =
     (if is_dir then collect prefix ext fs logFiles
      else (case timeFromName fname prefix ext of
              Inr t \<Rightarrow> collect prefix ext fs (logFiles @ [\<lparr>timestamp = t, entry_name = fname\<rparr>])
            | Inl e \<Rightarrow> (if e = PanicSliceBounds then Inl e else collect prefix ext fs logFiles)))"

text \<open>
  \<^verbatim>\<open>sort.Sort(byFormatTime(logFiles))\<close>: latest first. Go leaves the order of equal
  timestamps open; here they keep the order of the listing.
\<close>

definition oldLogFiles :: "RotateWriter \<Rightarrow> world \<Rightarrow> (error + logInfo list) \<times> world" where
  "oldLogFiles w s =
     (case os_ReadDir s of
        (None, s1) \<Rightarrow> (Inl ErrReadDir, s1)
      | (Some files, s1) \<Rightarrow>
          (case prefixAndExt w of (prefix, ext) \<Rightarrow>
             (case collect prefix ext files [] of
                Inl e \<Rightarrow> (Inl e, s1)
              | Inr logFiles \<Rightarrow> (Inr (sort_key (\<lambda>f. - timestamp f) logFiles), s1))))"

fun remove_all :: "logInfo list \<Rightarrow> world \<Rightarrow> world" where
  "remove_all [] s = s"
| "remove_all (f # fs) s = remove_all fs (snd (os_Remove (entry_name f) s))"

text \<open>\<^verbatim>\<open>mill\<close> returns nothing; the result here is the panic, when the sweep panics.\<close>

definition mill :: "RotateWriter \<Rightarrow> world \<Rightarrow> error option \<times> world" where
  "mill w s =
     (if maxBackups w = 0 \<and> maxAge w = 0 then (None, s)
      else (case oldLogFiles w s of
              (Inl e, s1) \<Rightarrow> (if e = PanicSliceBounds then Some e else None, s1)
            | (Inr files, s1) \<Rightarrow>
                (let over = (0 < maxBackups w \<and> maxBackups w < int (length files));
                     deletes = (if over then drop (nat (maxBackups w)) files else []);
                     kept = (if over then take (nat (maxBackups w)) files else files);
                     deletes2 =
                       (if 0 < maxAge w then
                          (let diff = wrap64 (24 * Hour * maxAge w);
                               cutoff = clock s1 + wrap64 (- 1 * diff)
                           in deletes @ filter (\<lambda>f. timestamp f < cutoff) kept)
                        else deletes)
                 in (None, remove_all deletes2 s1))))"

definition backupEntry :: "string \<Rightarrow> string \<Rightarrow> nat \<Rightarrow> string \<Rightarrow> string" where
  "backupEntry prefix tstamp index ext = prefix @ ''-'' @ tstamp @ ''-'' @ itoa index @ ext"

text \<open>
  The loop of \<^verbatim>\<open>backupName\<close>: the first index, from 1 upwards, for which
  \<^verbatim>\<open>os.Stat\<close> reports that the name does not exist. Any other answer of
  \<^verbatim>\<open>os.Stat\<close>, an error included, moves on to the next index.
\<close>

function backupName_loop :: "string \<Rightarrow> string \<Rightarrow> string \<Rightarrow> nat \<Rightarrow> world \<Rightarrow> string \<times> world" where
  "backupName_loop prefix tstamp ext index s =
     (case os_Stat (backupEntry prefix tstamp index ext) s of
        (NotExist, s1) \<Rightarrow> (backupEntry prefix tstamp index ext, s1)
      | (Found nd, s1) \<Rightarrow> backupName_loop prefix tstamp ext (Suc index) s1
      | (Failed, s1) \<Rightarrow> backupName_loop prefix tstamp ext (Suc index) s1)"
  by pat_completeness auto

definition later_backups :: "string \<Rightarrow> string \<Rightarrow> string \<Rightarrow> nat \<Rightarrow> world \<Rightarrow> (string \<times> node) list" where
  "later_backups prefix tstamp ext index s =
     filter (\<lambda>e. \<exists>j\<ge>index. fst e = backupEntry prefix tstamp j ext) (entries s)"

text \<open>
  \<^verbatim>\<open>backupName\<close>; the result is the entry name of the backup in the writer's
  directory.
\<close>

definition backupName :: "string \<Rightarrow> int \<Rightarrow> world \<Rightarrow> string \<times> world" where
  "backupName name t s =
     (let fname = Base name;
          ext = Ext fname;
          prefix = take (length fname - length ext) fname;
          tstamp = Format t
      in backupName_loop prefix tstamp ext 1 s)"

text \<open>The end of \<^verbatim>\<open>openNew\<close>: the new file is created with the mode found.\<close>

definition openNew_create :: "RotateWriter \<Rightarrow> nat \<Rightarrow> world \<Rightarrow> RotateWriter \<times> world \<times> error option" where
  "openNew_create w mode s =
     (case os_Create (Base (filename w)) mode s of
        (None, s1) \<Rightarrow> (w, s1, Some ErrOpenNew)
      | (Some f, s1) \<Rightarrow> (w\<lparr>cur_file := Some f, cur_size := 0\<rparr>, s1, None))"

definition openNew :: "RotateWriter \<Rightarrow> world \<Rightarrow> RotateWriter \<times> world \<times> error option" where
  "openNew w s =
     (case os_MkdirAll s of
        (False, s1) \<Rightarrow> (w, s1, Some ErrMkdir)
      | (True, s1) \<Rightarrow>
          (case os_Stat (Base (filename w)) s1 of
             (Found info, s2) \<Rightarrow>
               (case backupName (filename w) (clock s2) s2 of
                  (newname, s3) \<Rightarrow>
                    (case os_Rename (Base (filename w)) newname s3 of
                       (False, s4) \<Rightarrow> (w, s4, Some ErrRename)
                     | (True, s4) \<Rightarrow>
                         openNew_create w (perm info)
                           (if compress w then s4\<lparr>spawned := spawned s4 @ [newname]\<rparr> else s4)))
           | (NotExist, s2) \<Rightarrow> openNew_create w 420 s2
           | (Failed, s2) \<Rightarrow> openNew_create w 420 s2))"

definition rotate_w :: "RotateWriter \<Rightarrow> world \<Rightarrow> RotateWriter \<times> world \<times> error option" where
  "rotate_w w s =
     (case close w s of
        (w1, s1, Some e) \<Rightarrow> (w1, s1, Some e)
      | (w1, s1, None) \<Rightarrow>
          (case openNew w1 s1 of
             (w2, s2, Some e) \<Rightarrow> (w2, s2, Some e)
           | (w2, s2, None) \<Rightarrow> (case mill w2 s2 of (r, s3) \<Rightarrow> (w2, s3, r))))"

definition openExistingOrNew :: "RotateWriter \<Rightarrow> world \<Rightarrow> nat \<Rightarrow> RotateWriter \<times> world \<times> error option" where
  "openExistingOrNew w s writeLen =
     (case mill w s of
        (Some e, s1) \<Rightarrow> (w, s1, Some e)
      | (None, s1) \<Rightarrow>
          (case os_Stat (Base (filename w)) s1 of
             (NotExist, s2) \<Rightarrow> openNew w s2
           | (Failed, s2) \<Rightarrow> (w, s2, Some ErrStat)
           | (Found info, s2) \<Rightarrow>
               (if maxSize w \<le> wrap64 (int (length (content info)) + int writeLen)
                then rotate_w w s2
                else (case os_OpenAppend (Base (filename w)) s2 of
                        (None, s3) \<Rightarrow> openNew w s3
                      | (Some f, s3) \<Rightarrow>
                          (w\<lparr>cur_file := Some f, cur_size := int (length (content info))\<rparr>,
                           s3, None)))))"

text \<open>
  \<^verbatim>\<open>Write\<close> returns the writer and the world after the call, the count \<open>n\<close> and the
  error. A panic of the sweep leaves \<^verbatim>\<open>Write\<close> as the error \<open>PanicSliceBounds\<close>.
  \<^verbatim>\<open>(*os.File).Write\<close> on a nil file returns \<^verbatim>\<open>os.ErrInvalid\<close>.
\<close>

definition Write :: "RotateWriter \<Rightarrow> world \<Rightarrow> string \<Rightarrow> RotateWriter \<times> world \<times> nat \<times> error option" where
  "Write w s p =
     (let writeLen = int (length p) in
      if maxSize w < writeLen then (w, s, 0, Some (ErrWriteTooLong writeLen (maxSize w)))
      else (case (if cur_file w = None then openExistingOrNew w s (length p) else (w, s, None)) of
              (w1, s1, Some e) \<Rightarrow> (w1, s1, 0, Some e)
            | (w1, s1, None) \<Rightarrow>
                (case (if maxSize w1 < wrap64 (cur_size w1 + writeLen) then rotate_w w1 s1
                       else (w1, s1, None)) of
                   (w2, s2, Some e) \<Rightarrow> (w2, s2, 0, Some e)
                 | (w2, s2, None) \<Rightarrow>
                     (case cur_file w2 of
                        None \<Rightarrow> (w2, s2, 0, Some ErrInvalid)
                      | Some f \<Rightarrow>
                          (case file_Write f p s2 of
                             ((n, err), s3) \<Rightarrow>
                               (w2\<lparr>cur_size := wrap64 (cur_size w2 + int n)\<rparr>, s3, n, err))))))"

definition Close :: "RotateWriter \<Rightarrow> world \<Rightarrow> RotateWriter \<times> world \<times> error option" where
  "Close w s = close w s"

section \<open>Sequences of writes, and the states of the examples\<close>

text \<open>The entry of the active log file in the writer's directory.\<close>

definition active :: "RotateWriter \<Rightarrow> string" where
  "active w = Base (filename w)"

text \<open>
  A caller's writes, one after the other: each comes with the time on the clock when it is
  made. The result lists the writer, the world and what \<^verbatim>\<open>Write\<close> returned, after each
  write.
\<close>

fun Writes :: "RotateWriter \<Rightarrow> world \<Rightarrow> (int \<times> string) list
    \<Rightarrow> (RotateWriter \<times> world \<times> nat \<times> error option) list" where
  "Writes w s [] = []"
| "Writes w s ((t, p) # ps) =
     (case Write w (s\<lparr>clock := t\<rparr>) p of
        (w1, s1, r) \<Rightarrow> (w1, s1, r) # Writes w1 s1 ps)"

text \<open>
  A writer on \<^verbatim>\<open>logs/app.log\<close> with a threshold of 10 bytes and no retention, not yet
  opened; a regular file with mode 0644; an existing, empty directory at noon of
  2024-01-15, with no failures scheduled.
\<close>

definition ex_writer :: RotateWriter where
  "ex_writer =
     \<lparr>filename = ''logs/app.log'', maxSize = 10, maxAge = 0, maxBackups = 0,
      compress = False, cur_file = None, cur_size = 0\<rparr>"

definition reg :: "string \<Rightarrow> node" where
  "reg c = \<lparr>content = c, perm = 420, isdir = False\<rparr>"

definition noon :: int where
  "noon = 1705320000000000000"

definition day :: int where
  "day = 86400000000000"

definition ex_world :: "(string \<times> node) list \<Rightarrow> world" where
  "ex_world es =
     \<lparr>dir = Some es, clock = noon, faults = (\<lambda>k. []), spawned = [], umask = 18\<rparr>"

text \<open>
  The name \<^verbatim>\<open>backupName\<close> builds for \<open>index\<close>:
  \<^verbatim>\<open>fmt.Sprintf("%s-%s-%d%s", prefix, timestamp, index, ext)\<close>.
\<close>

definition candidate :: "string \<Rightarrow> int \<Rightarrow> nat \<Rightarrow> string" where
  "candidate name t index =
     (let fname = Base name;
          ext = Ext fname;
          prefix = take (length fname - length ext) fname
      in backupEntry prefix (Format t) index ext)"

section \<open>The size the writer records, against the file\<close>

text \<open>
  \<open>opened\<close>: the active file exists, is a regular file, and the writer's size field
  is its length and does not exceed \<open>maxSize\<close>. \<open>small\<close> and the bound on
  \<open>maxSize\<close> in \<open>sound\<close> keep the 64-bit additions of the writer away from
  the wrap-around.
\<close>

definition opened :: "RotateWriter \<Rightarrow> world \<Rightarrow> bool" where
  "opened w s =
     (case lookup s (active w) of
        None \<Rightarrow> False
      | Some nd \<Rightarrow> isdir nd = False \<and> int (length (content nd)) = cur_size w
                   \<and> cur_size w \<le> maxSize w)"

definition small :: "RotateWriter \<Rightarrow> world \<Rightarrow> bool" where
  "small w s =
     (case lookup s (active w) of None \<Rightarrow> True | Some nd \<Rightarrow> int (length (content nd)) < 2 ^ 62)"

definition sound :: "RotateWriter \<Rightarrow> world \<Rightarrow> bool" where
  "sound w s =
     (maxSize w < 2 ^ 62 \<and> small w s
      \<and> (case cur_file w of None \<Rightarrow> True | Some h \<Rightarrow> h = active w \<and> opened w s))"

section \<open>Digits and backup names\<close>

lemma digit_inj: "a < 10 \<Longrightarrow> b < 10 \<Longrightarrow> digit a = digit b \<Longrightarrow> a = b"
proof -
  assume a: "a < 10" and b: "b < 10" and e: "digit a = digit b"
  have d: "distinct ''0123456789''" by simp
  have l: "length ''0123456789'' = 10" by simp
  from e have "''0123456789'' ! a = ''0123456789'' ! b" by (simp only: digit_def)
  with d a b l show "a = b" by (metis nth_eq_iff_index_eq)
qed

lemma digit_isDigit: "d < 10 \<Longrightarrow> isDigit (digit d)"
proof -
  assume "d < 10"
  then have "d < length ''0123456789''" by simp
  then have "''0123456789'' ! d \<in> set ''0123456789''" by (rule nth_mem)
  then show ?thesis by (simp only: digit_def isDigit_def)
qed

lemma itoa_nonempty: "itoa n \<noteq> []"
  by (subst itoa.simps) simp

lemma itoa_digits: "list_all isDigit (itoa n)"
proof (induction n rule: itoa.induct)
  case (1 n)
  show ?case
  proof (cases "n < 10")
    case True
    then show ?thesis by (subst itoa.simps) (simp add: digit_isDigit)
  next
    case False
    with 1 have "list_all isDigit (itoa (n div 10))" by simp
    moreover have "isDigit (digit (n mod 10))" by (simp add: digit_isDigit)
    ultimately show ?thesis using False by (subst itoa.simps) simp
  qed
qed

lemma itoa_inj: "itoa m = itoa n \<Longrightarrow> m = n"
proof (induction m arbitrary: n rule: itoa.induct)
  case (1 m)
  show ?case
  proof (cases "m < 10")
    case mlt: True
    show ?thesis
    proof (cases "n < 10")
      case True
      with mlt 1(2) show ?thesis by (simp add: itoa.simps[of m] itoa.simps[of n] digit_inj)
    next
      case False
      with mlt 1(2) have "[digit m] = itoa (n div 10) @ [digit (n mod 10)]"
        by (simp add: itoa.simps[of m] itoa.simps[of n])
      then show ?thesis using itoa_nonempty[of "n div 10"] by simp
    qed
  next
    case mge: False
    show ?thesis
    proof (cases "n < 10")
      case True
      with mge 1(2) have "itoa (m div 10) @ [digit (m mod 10)] = [digit n]"
        by (simp add: itoa.simps[of m] itoa.simps[of n])
      then show ?thesis using itoa_nonempty[of "m div 10"] by simp
    next
      case False
      with mge 1(2) have e: "itoa (m div 10) @ [digit (m mod 10)] = itoa (n div 10) @ [digit (n mod 10)]"
        by (simp add: itoa.simps[of m] itoa.simps[of n])
      then have e1: "itoa (m div 10) = itoa (n div 10)" and e2: "digit (m mod 10) = digit (n mod 10)"
        by simp_all
      from 1(1)[OF mge e1] have d: "m div 10 = n div 10" .
      from e2 have r: "m mod 10 = n mod 10" by (intro digit_inj) simp_all
      from d r show ?thesis by (metis div_mult_mod_eq)
    qed
  qed
qed

lemma backupEntry_inj: "backupEntry p t i e = backupEntry p t j e \<Longrightarrow> i = j"
  by (simp add: backupEntry_def itoa_inj)

section \<open>The backup name loop terminates\<close>

lemma os_Stat_entries: "os_Stat name s = (r, s1) \<Longrightarrow> dir s1 = dir s"
  by (auto simp: os_Stat_def fault_def split: list.splits option.splits prod.splits)

lemma os_Stat_Failed:
  "os_Stat name s = (Failed, s1) \<Longrightarrow> length (faults s1 OpStat) < length (faults s OpStat)"
  by (auto simp: os_Stat_def fault_def split: list.splits option.splits prod.splits)

lemma os_Stat_faults:
  "os_Stat name s = (r, s1) \<Longrightarrow> length (faults s1 OpStat) \<le> length (faults s OpStat)"
  by (auto simp: os_Stat_def fault_def split: list.splits option.splits prod.splits)

lemma os_Stat_Found:
  "os_Stat name s = (Found nd, s1) \<Longrightarrow> (name, nd) \<in> set (entries s)"
  by (auto simp: os_Stat_def fault_def lookup_def entries_def dest: map_of_SomeD split: list.splits option.splits prod.splits)

lemma later_backups_mono:
  "dir s1 = dir s \<Longrightarrow> length (later_backups p t e (Suc i) s1) \<le> length (later_backups p t e i s)"
proof -
  assume d: "dir s1 = dir s"
  have "later_backups p t e (Suc i) s1 = filter (\<lambda>x. \<exists>j\<ge>Suc i. fst x = backupEntry p t j e) (later_backups p t e i s)"
    using d by (auto simp: later_backups_def entries_def intro!: filter_cong dest: Suc_leD)
  then show ?thesis by simp
qed

lemma later_backups_less:
  assumes d: "dir s1 = dir s" and m: "(backupEntry p t i e, nd) \<in> set (entries s)"
  shows "length (later_backups p t e (Suc i) s1) < length (later_backups p t e i s)"
proof -
  have eq: "later_backups p t e (Suc i) s1 = filter (\<lambda>x. \<exists>j\<ge>Suc i. fst x = backupEntry p t j e) (later_backups p t e i s)"
    using d by (auto simp: later_backups_def entries_def intro!: filter_cong dest: Suc_leD)
  have mem: "(backupEntry p t i e, nd) \<in> set (later_backups p t e i s)"
    using m by (auto simp: later_backups_def)
  have no: "\<not> (\<exists>j\<ge>Suc i. fst (backupEntry p t i e, nd) = backupEntry p t j e)"
    by (auto dest: backupEntry_inj)
  from length_filter_less[of "(backupEntry p t i e, nd)" "later_backups p t e i s"
      "\<lambda>x. \<exists>j\<ge>Suc i. fst x = backupEntry p t j e", OF mem no] eq
  show ?thesis by simp
qed

termination backupName_loop
proof (relation "measure (\<lambda>(p, t, e, i, s). length (faults s OpStat) + length (later_backups p t e i s))")
  show "wf (measure (\<lambda>(p, t, e, i, s). length (faults s OpStat) + length (later_backups p t e i s)))"
    by simp
next
  fix prefix tstamp ext :: string and index :: nat and s s1 :: world and x nd
  assume "(x, s1) = os_Stat (backupEntry prefix tstamp index ext) s" and "x = Found nd"
  then have f: "os_Stat (backupEntry prefix tstamp index ext) s = (Found nd, s1)" by simp
  from os_Stat_faults[OF f] later_backups_less[OF os_Stat_entries[OF f] os_Stat_Found[OF f]]
  show "((prefix, tstamp, ext, Suc index, s1), (prefix, tstamp, ext, index, s))
        \<in> measure (\<lambda>(p, t, e, i, s). length (faults s OpStat) + length (later_backups p t e i s))"
    by simp
next
  fix prefix tstamp ext :: string and index :: nat and s s1 :: world and x :: "node stat"
  assume "(x, s1) = os_Stat (backupEntry prefix tstamp index ext) s" and "x = Failed"
  then have f: "os_Stat (backupEntry prefix tstamp index ext) s = (Failed, s1)" by simp
  from os_Stat_Failed[OF f] later_backups_mono[OF os_Stat_entries[OF f]]
  show "((prefix, tstamp, ext, Suc index, s1), (prefix, tstamp, ext, index, s))
        \<in> measure (\<lambda>(p, t, e, i, s). length (faults s OpStat) + length (later_backups p t e i s))"
    by (simp add: add_less_le_mono)
qed

declare backupName_loop.simps [simp del]

section \<open>Backup names under the sweep's parser\<close>

lemma Split_part: "c \<notin> set a \<Longrightarrow> Split (a @ c # rest) c = a # Split rest c"
  by (induction a) auto

lemma Split_whole: "c \<notin> set a \<Longrightarrow> Split a c = [a]"
  by (induction a) auto

lemma isDigit_not_dash: "isDigit c \<Longrightarrow> c \<noteq> CHR ''-''"
  by (auto simp: isDigit_def)

lemma digits_no_dash: "list_all isDigit a \<Longrightarrow> CHR ''-'' \<notin> set a"
  by (auto simp: list_all_iff dest: isDigit_not_dash)

lemma pad_digits: "list_all isDigit (pad k n)"
proof -
  have "isDigit (CHR ''0'')" by (simp add: isDigit_def)
  moreover have "list_all isDigit (itoa n)" by (rule itoa_digits)
  ultimately show ?thesis by (auto simp: pad_def list_all_iff)
qed

lemma itoa_length_2: "n < 100 \<Longrightarrow> length (itoa n) \<le> 2"
proof -
  assume n: "n < 100"
  then have "n div 10 < 10" by simp
  then have "length (itoa (n div 10)) = 1" by (subst itoa.simps) simp
  then show ?thesis by (subst itoa.simps) simp
qed

lemma pad2_length: "n < 100 \<Longrightarrow> length (pad 2 n) = 2"
  using itoa_length_2[of n] itoa_nonempty[of n] by (auto simp: pad_def)

lemma monthOf_bound: "monthOf ls m d = (m', d') \<Longrightarrow> m' \<le> m + length ls"
proof (induction ls arbitrary: m d)
  case Nil
  then show ?case by simp
next
  case (Cons l ls)
  show ?case
  proof (cases "d < l")
    case True
    with Cons.prems show ?thesis by simp
  next
    case False
    with Cons.prems have "monthOf ls (Suc m) (d - l) = (m', d')" by simp
    from Cons.IH[OF this] show ?thesis by simp
  qed
qed

lemma civil_month: "civil t = (y, m, d) \<Longrightarrow> m \<le> 13"
proof -
  assume c: "civil t = (y, m, d)"
  obtain y0 doy where yo: "yearOf 1970 (nat (t div nsPerDay)) = (y0, doy)" by fastforce
  obtain m0 d0 where mo: "monthOf (monthLengths y0) 1 doy = (m0, d0)" by fastforce
  from c yo mo have "m = m0" by (simp add: civil_def del: One_nat_def)
  moreover from monthOf_bound[OF mo] have "m0 \<le> 13" by (simp add: monthLengths_def)
  ultimately show ?thesis by simp
qed

lemma Parse_Some_digits: "Parse x = Some t \<Longrightarrow> 3 \<le> length x \<and> isDigit (x ! 2)"
  by (cases x rule: Parse.cases) (auto simp: Let_def split: if_splits)

lemma Parse_month_first: "length mm = 2 \<Longrightarrow> Parse (mm @ CHR ''-'' # rest) = None"
proof (rule ccontr)
  assume l: "length mm = 2" and "Parse (mm @ CHR ''-'' # rest) \<noteq> None"
  then obtain t where "Parse (mm @ CHR ''-'' # rest) = Some t" by auto
  from Parse_Some_digits[OF this] l have "isDigit (CHR ''-'')" by (simp add: nth_append)
  then show False by (simp add: isDigit_def)
qed

lemma Format_parts:
  "\<exists>yy mm dd. Format t = yy @ ''-'' @ mm @ ''-'' @ dd \<and> list_all isDigit yy
     \<and> list_all isDigit mm \<and> list_all isDigit dd \<and> length mm = 2"
proof -
  obtain y m d where c: "civil t = (y, m, d)" using prod_cases3 by blast
  from civil_month[OF c] have "m < 100" by simp
  then have "length (pad 2 m) = 2" by (rule pad2_length)
  with c show ?thesis
    by (intro exI[of _ "pad 4 y"] exI[of _ "pad 2 m"] exI[of _ "pad 2 d"])
      (simp add: Format_def pad_digits)
qed

lemma timeFromName_backupEntry:
  "timeFromName (backupEntry p (Format t) i e) (p @ ''-'') e = Inl ErrParse"
proof -
  obtain yy mm dd where f: "Format t = yy @ ''-'' @ mm @ ''-'' @ dd"
    and dy: "list_all isDigit yy" and dm: "list_all isDigit mm" and dd: "list_all isDigit dd"
    and lm: "length mm = 2"
    using Format_parts by blast
  let ?ts = "Format t @ ''-'' @ itoa i"
  let ?n = "backupEntry p (Format t) i e"
  have n: "?n = (p @ ''-'') @ ?ts @ e" by (simp add: backupEntry_def)
  have hp: "HasPrefix ?n (p @ ''-'')" by (simp add: HasPrefix_def n)
  have hs: "HasSuffix ?n e" by (simp add: HasSuffix_def n)
  have ln: "\<not> length ?n - length e < length (p @ ''-'')" by (simp add: n)
  have ts: "take (length ?n - length e - length (p @ ''-'')) (drop (length (p @ ''-'')) ?n) = ?ts"
    by (simp add: n)
  have sp: "Split ?ts (CHR ''-'') = [yy, mm, dd, itoa i]"
    using digits_no_dash[OF dy] digits_no_dash[OF dm] digits_no_dash[OF dd]
      digits_no_dash[OF itoa_digits[of i]]
    by (simp add: f Split_part Split_whole)
  have pj: "Parse (Join (take 3 (drop 1 [yy, mm, dd, itoa i])) ''-'') = None"
    using Parse_month_first[OF lm, of "dd @ CHR ''-'' # itoa i"] by simp
  show ?thesis
    unfolding timeFromName_def using hp hs ln
    by (simp only: if_True if_False ts sp Let_def pj) simp
qed

lemma backupName_loop_shape:
  "\<exists>j\<ge>i. fst (backupName_loop p ts e i s) = backupEntry p ts j e"
proof (induction p ts e i s rule: backupName_loop.induct)
  case (1 prefix tstamp ext index s)
  obtain r s1 where st: "os_Stat (backupEntry prefix tstamp index ext) s = (r, s1)" by fastforce
  show ?case
  proof (cases r)
    case (Found nd)
    with 1(1)[OF st[symmetric] Found] obtain j where "j \<ge> Suc index"
      "fst (backupName_loop prefix tstamp ext (Suc index) s1) = backupEntry prefix tstamp j ext" by blast
    with st Found show ?thesis by (subst backupName_loop.simps) (auto intro!: exI[of _ j])
  next
    case NotExist
    with st show ?thesis by (subst backupName_loop.simps) (auto intro!: exI[of _ index])
  next
    case Failed
    with 1(2)[OF st[symmetric] Failed] obtain j where "j \<ge> Suc index"
      "fst (backupName_loop prefix tstamp ext (Suc index) s1) = backupEntry prefix tstamp j ext" by blast
    with st Failed show ?thesis by (subst backupName_loop.simps) (auto intro!: exI[of _ j])
  qed
qed

section \<open>System calls, by their effect on the directory\<close>

lemma fault_eq:
  "fault k s = (case faults s k of [] \<Rightarrow> None | f # fs \<Rightarrow> f,
                s\<lparr>faults := (faults s)(k := tl (faults s k))\<rparr>)"
  by (cases "faults s k") (simp_all add: fault_def fun_upd_idem)

lemma fault_empty: "faults s k = [] \<Longrightarrow> fault k s = (None, s)"
  by (simp add: fault_def)

lemma entries_faults [simp]: "entries (s\<lparr>faults := x\<rparr>) = entries s"
  by (simp add: entries_def)

lemma lookup_faults [simp]: "lookup (s\<lparr>faults := x\<rparr>) = lookup s"
  by (simp add: lookup_def fun_eq_iff)

lemma entries_spawned [simp]: "entries (s\<lparr>spawned := x\<rparr>) = entries s"
  by (simp add: entries_def)

lemma lookup_spawned [simp]: "lookup (s\<lparr>spawned := x\<rparr>) = lookup s"
  by (simp add: lookup_def fun_eq_iff)

lemma entries_clock [simp]: "entries (s\<lparr>clock := x\<rparr>) = entries s"
  by (simp add: entries_def)

lemma lookup_clock [simp]: "lookup (s\<lparr>clock := x\<rparr>) = lookup s"
  by (simp add: lookup_def fun_eq_iff)

lemma entries_dir [simp]: "entries (s\<lparr>dir := Some es\<rparr>) = es"
  by (simp add: entries_def)

lemma lookup_set_dir [simp]: "lookup (s\<lparr>dir := Some es\<rparr>) = map_of es"
  by (simp add: lookup_def fun_eq_iff)

lemma map_of_entries: "map_of (entries s) = lookup s"
  by (simp add: lookup_def fun_eq_iff)

lemma lookup_dir: "dir s1 = dir s \<Longrightarrow> lookup s1 = lookup s"
  by (simp add: lookup_def entries_def fun_eq_iff)

lemma lookup_Some_dir: "lookup s x = Some nd \<Longrightarrow> dir s = Some (entries s)"
  by (cases "dir s") (simp_all add: lookup_def entries_def)

lemma os_Stat_spec:
  "os_Stat name s = (r, s1) \<Longrightarrow>
     dir s1 = dir s \<and> clock s1 = clock s \<and> spawned s1 = spawned s
     \<and> (\<forall>nd. r = Found nd \<longrightarrow> lookup s name = Some nd)
     \<and> (r = NotExist \<longrightarrow> lookup s name = None)"
  by (auto simp: os_Stat_def fault_eq split: list.splits option.splits)

lemma os_MkdirAll_spec:
  "os_MkdirAll s = (ok, s1) \<Longrightarrow>
     lookup s1 = lookup s \<and> clock s1 = clock s \<and> spawned s1 = spawned s
     \<and> (ok \<longrightarrow> dir s1 = Some (entries s)) \<and> (\<not> ok \<longrightarrow> dir s1 = dir s)"
  by (auto simp: os_MkdirAll_def fault_eq map_of_entries split: list.splits option.splits)

lemma os_Rename_spec:
  "os_Rename old new s = (ok, s1) \<Longrightarrow>
     clock s1 = clock s \<and> spawned s1 = spawned s
     \<and> (ok \<longrightarrow> (\<exists>nd. lookup s old = Some nd
                     \<and> lookup s1 = ((lookup s)(old := None))(new \<mapsto> nd) \<and> dir s1 \<noteq> None))
     \<and> (\<not> ok \<longrightarrow> dir s1 = dir s)"
  by (auto simp: os_Rename_def fault_eq map_of_entries update_conv' delete_conv'
      split: list.splits option.splits)

lemma os_OpenAppend_spec:
  "os_OpenAppend name s = (r, s1) \<Longrightarrow>
     dir s1 = dir s \<and> clock s1 = clock s \<and> spawned s1 = spawned s
     \<and> (\<forall>h. r = Some h \<longrightarrow> h = name \<and> (\<exists>nd. lookup s name = Some nd \<and> \<not> isdir nd))"
  by (auto simp: os_OpenAppend_def fault_eq split: list.splits option.splits if_splits)

lemma os_Remove_spec:
  "os_Remove name s = (ok, s1) \<Longrightarrow>
     clock s1 = clock s \<and> spawned s1 = spawned s
     \<and> (ok \<longrightarrow> lookup s1 = (lookup s)(name := None)) \<and> (\<not> ok \<longrightarrow> dir s1 = dir s)"
  by (auto simp: os_Remove_def fault_eq map_of_entries delete_conv'
      split: list.splits option.splits)

lemma os_Close_spec:
  "os_Close h s = (ok, s1) \<Longrightarrow> dir s1 = dir s \<and> clock s1 = clock s \<and> spawned s1 = spawned s"
  by (auto simp: os_Close_def fault_eq split: list.splits option.splits)

lemma node_trunc: "\<not> isdir (nd :: node) \<Longrightarrow>
    nd\<lparr>content := []\<rparr> = \<lparr>content = [], perm = perm nd, isdir = False\<rparr>"
  by (cases nd) simp

lemma os_Create_spec:
  "os_Create name mode s = (r, s1) \<Longrightarrow>
     clock s1 = clock s \<and> spawned s1 = spawned s
     \<and> (r = None \<longrightarrow> dir s1 = dir s)
     \<and> (\<forall>h. r = Some h \<longrightarrow> h = name \<and> dir s1 \<noteq> None
             \<and> lookup s1 = (lookup s)(name \<mapsto>
                  \<lparr>content = [],
                   perm = (case lookup s name of None \<Rightarrow> mode - (mode AND umask s) | Some old \<Rightarrow> perm old),
                   isdir = False\<rparr>))"
  by (cases "dir s")
    (auto simp: os_Create_def fault_eq lookup_def[abs_def] entries_def update_conv' node_trunc
      split: list.splits option.splits if_splits)

lemma os_ReadDir_spec:
  "os_ReadDir s = (r, s1) \<Longrightarrow>
     dir s1 = dir s \<and> clock s1 = clock s \<and> spawned s1 = spawned s
     \<and> (\<forall>fs. r = Some fs \<longrightarrow> fs = map (\<lambda>(name, nd). (name, isdir nd)) (entries s))"
  by (cases "dir s")
    (auto simp: os_ReadDir_def fault_eq entries_def split: list.splits option.splits)

lemma file_Write_spec:
  "file_Write h p s = ((n, err), s1) \<Longrightarrow>
     clock s1 = clock s \<and> spawned s1 = spawned s \<and> n \<le> length p
     \<and> (err = None \<longrightarrow> n = length p)
     \<and> ((n = 0 \<and> err \<noteq> None \<and> dir s1 = dir s)
         \<or> (\<exists>nd. lookup s h = Some nd \<and> \<not> isdir nd
               \<and> lookup s1 = (lookup s)(h \<mapsto> nd\<lparr>content := content nd @ take n p\<rparr>)))"
  by (cases "lookup s h")
    (auto simp: file_Write_def fault_eq map_of_entries update_conv' min_def
      split: list.splits option.splits if_splits)

section \<open>The extension of a file name\<close>

lemma ext_scan_spec:
  "ext_scan r acc \<noteq> [] \<Longrightarrow>
     \<exists>pre mid. rev r = pre @ CHR ''.'' # mid \<and> ext_scan r acc = CHR ''.'' # mid @ acc
       \<and> CHR ''.'' \<notin> set mid \<and> CHR ''/'' \<notin> set mid"
proof (induction r arbitrary: acc)
  case Nil
  then show ?case by simp
next
  case (Cons c cs)
  show ?case
  proof (cases "c = CHR ''.''")
    case True
    then show ?thesis by (intro exI[of _ "rev cs"] exI[of _ "[]"]) simp
  next
    case False
    with Cons.prems have ne: "c \<noteq> CHR ''/''" and r: "ext_scan cs (c # acc) \<noteq> []"
      by (auto split: if_splits)
    from Cons.IH[OF r] obtain pre mid where
      a: "rev cs = pre @ CHR ''.'' # mid" and b: "ext_scan cs (c # acc) = CHR ''.'' # mid @ c # acc"
      and c: "CHR ''.'' \<notin> set mid" and d: "CHR ''/'' \<notin> set mid" by blast
    have "rev (c # cs) = pre @ CHR ''.'' # (mid @ [c])" by (simp add: a)
    moreover have "ext_scan (c # cs) acc = CHR ''.'' # (mid @ [c]) @ acc"
      using False ne by (simp add: b)
    moreover have "CHR ''.'' \<notin> set (mid @ [c])" "CHR ''/'' \<notin> set (mid @ [c])"
      using False ne c d by auto
    ultimately show ?thesis by blast
  qed
qed

lemma Ext_spec:
  "Ext x = [] \<or> (\<exists>pre mid. x = pre @ CHR ''.'' # mid \<and> Ext x = CHR ''.'' # mid
                   \<and> CHR ''.'' \<notin> set mid \<and> CHR ''/'' \<notin> set mid)"
proof (cases "Ext x = []")
  case True
  then show ?thesis by simp
next
  case False
  then have "ext_scan (rev x) [] \<noteq> []" by (simp add: Ext_def)
  from ext_scan_spec[OF this] obtain pre mid where
    a: "rev (rev x) = pre @ CHR ''.'' # mid" and b: "ext_scan (rev x) [] = CHR ''.'' # mid @ []"
    and c: "CHR ''.'' \<notin> set mid" "CHR ''/'' \<notin> set mid" by blast
  from a have "x = pre @ CHR ''.'' # mid" by simp
  moreover from b have "Ext x = CHR ''.'' # mid" by (simp add: Ext_def)
  ultimately show ?thesis using c by blast
qed

lemma Ext_split: "take (length x - length (Ext x)) x @ Ext x = x"
proof -
  from Ext_spec[of x] show ?thesis
  proof
    assume "Ext x = []"
    then show ?thesis by simp
  next
    assume "\<exists>pre mid. x = pre @ CHR ''.'' # mid \<and> Ext x = CHR ''.'' # mid
                   \<and> CHR ''.'' \<notin> set mid \<and> CHR ''/'' \<notin> set mid"
    then obtain pre mid where x: "x = pre @ CHR ''.'' # mid" and e: "Ext x = CHR ''.'' # mid"
      by blast
    have "length x - length (Ext x) = length pre" by (simp add: e) (simp add: x)
    then have "take (length x - length (Ext x)) x = pre" by (simp add: x)
    then show ?thesis by (simp add: e) (simp add: x)
  qed
qed

lemma active_not_matched:
  "\<not> HasPrefix (Base (filename w)) (fst (prefixAndExt w))"
proof -
  define b where "b = Base (filename w)"
  define p where "p = take (length b - length (Ext b)) b"
  have pe: "fst (prefixAndExt w) = p @ ''-''"
    by (simp add: prefixAndExt_def Let_def p_def b_def)
  have "\<not> HasPrefix b (p @ ''-'')"
  proof (cases "Ext b = []")
    case True
    then have "p = b" by (simp add: p_def)
    then show ?thesis by (simp add: HasPrefix_def)
  next
    case False
    with Ext_spec[of b] obtain pre mid where x: "b = pre @ CHR ''.'' # mid"
      and e: "Ext b = CHR ''.'' # mid" by blast
    have "length b - length (Ext b) = length pre" by (simp add: e) (simp add: x)
    then have pp: "p = pre" by (simp add: p_def) (simp add: x)
    have "take (length (pre @ ''-'')) b = pre @ ''.''" by (simp add: x)
    then show ?thesis by (simp add: HasPrefix_def pp)
  qed
  then show ?thesis by (simp add: pe b_def)
qed

lemma active_not_parsed:
  "timeFromName (active w) (fst (prefixAndExt w)) (snd (prefixAndExt w)) = Inl ErrMismatchedPrefix"
  using active_not_matched[of w] by (simp add: timeFromName_def active_def)

section \<open>The retention sweep only removes names it parsed\<close>

lemma os_Remove_faults:
  "os_Remove name s = (ok, s1) \<Longrightarrow> k \<noteq> OpRemove \<Longrightarrow> faults s1 k = faults s k"
  by (auto simp: os_Remove_def fault_eq split: list.splits option.splits)

lemma os_ReadDir_faults:
  "os_ReadDir s = (r, s1) \<Longrightarrow> k \<noteq> OpReadDir \<Longrightarrow> faults s1 k = faults s k"
  by (auto simp: os_ReadDir_def fault_eq split: list.splits option.splits)

lemma os_Remove_lookup:
  "os_Remove name s = (ok, s1) \<Longrightarrow>
     lookup s1 = (if ok then (lookup s)(name := None) else lookup s)"
  by (auto simp: os_Remove_def fault_eq map_of_entries delete_conv'
      split: list.splits option.splits)

lemma collect_spec:
  "collect prefix ext files acc = Inr out \<Longrightarrow> f \<in> set out \<Longrightarrow>
     f \<in> set acc \<or> (\<exists>t. timeFromName (entry_name f) prefix ext = Inr t)"
proof (induction files arbitrary: acc)
  case Nil
  then show ?case by simp
next
  case (Cons a files)
  obtain fname is_dir where a: "a = (fname, is_dir)" by (cases a)
  show ?case
  proof (cases is_dir)
    case True
    with Cons.prems a have "collect prefix ext files acc = Inr out" by simp
    from Cons.IH[OF this Cons.prems(2)] show ?thesis .
  next
    case False
    show ?thesis
    proof (cases "timeFromName fname prefix ext")
      case (Inl e)
      with Cons.prems a False have "collect prefix ext files acc = Inr out"
        by (simp split: if_splits)
      from Cons.IH[OF this Cons.prems(2)] show ?thesis .
    next
      case (Inr t)
      with Cons.prems a False
      have "collect prefix ext files (acc @ [\<lparr>timestamp = t, entry_name = fname\<rparr>]) = Inr out"
        by simp
      from Cons.IH[OF this Cons.prems(2)] Inr show ?thesis by auto
    qed
  qed
qed

lemma collect_panic:
  "collect prefix ext files acc = Inl e \<Longrightarrow>
     e = PanicSliceBounds \<and> (\<exists>x \<in> set files. timeFromName (fst x) prefix ext = Inl PanicSliceBounds)"
proof (induction files arbitrary: acc)
  case Nil
  then show ?case by simp
next
  case (Cons a files)
  obtain fname is_dir where a: "a = (fname, is_dir)" by (cases a)
  show ?case
  proof (cases is_dir)
    case True
    with Cons.prems a have "collect prefix ext files acc = Inl e" by simp
    from Cons.IH[OF this] show ?thesis by auto
  next
    case False
    show ?thesis
    proof (cases "timeFromName fname prefix ext")
      case (Inl e')
      show ?thesis
      proof (cases "e' = PanicSliceBounds")
        case True
        with Cons.prems a False Inl show ?thesis by auto
      next
        case ne: False
        with Cons.prems a False Inl have "collect prefix ext files acc = Inl e" by simp
        from Cons.IH[OF this] show ?thesis by auto
      qed
    next
      case (Inr t)
      with Cons.prems a False
      have "collect prefix ext files (acc @ [\<lparr>timestamp = t, entry_name = fname\<rparr>]) = Inl e"
        by simp
      from Cons.IH[OF this] show ?thesis by auto
    qed
  qed
qed

lemma remove_all_frame:
  "clock (remove_all ds s) = clock s \<and> spawned (remove_all ds s) = spawned s
   \<and> (\<forall>k. k \<noteq> OpRemove \<longrightarrow> faults (remove_all ds s) k = faults s k)"
proof (induction ds arbitrary: s)
  case Nil
  then show ?case by simp
next
  case (Cons d ds)
  obtain ok s1 where r: "os_Remove (entry_name d) s = (ok, s1)" by fastforce
  from os_Remove_spec[OF r] os_Remove_faults[OF r] Cons.IH[of s1] show ?case
    by (simp add: r)
qed

lemma remove_all_cases:
  "lookup (remove_all ds s) x = lookup s x \<or> lookup (remove_all ds s) x = None"
proof (induction ds arbitrary: s)
  case Nil
  then show ?case by simp
next
  case (Cons d ds)
  obtain ok s1 where r: "os_Remove (entry_name d) s = (ok, s1)" by fastforce
  have "lookup s1 x = lookup s x \<or> lookup s1 x = None"
    by (simp add: os_Remove_lookup[OF r])
  with Cons.IH[of s1] show ?case by (auto simp: r)
qed

lemma remove_all_keep:
  "x \<notin> entry_name ` set ds \<Longrightarrow> lookup (remove_all ds s) x = lookup s x"
proof (induction ds arbitrary: s)
  case Nil
  then show ?case by simp
next
  case (Cons d ds)
  obtain ok s1 where r: "os_Remove (entry_name d) s = (ok, s1)" by fastforce
  from Cons.prems have ne: "x \<noteq> entry_name d" and rest: "x \<notin> entry_name ` set ds" by auto
  have "lookup s1 x = lookup s x"
    using ne by (simp add: os_Remove_lookup[OF r])
  with Cons.IH[OF rest, of s1] show ?case by (simp add: r)
qed

lemma oldLogFiles_cases:
  assumes "oldLogFiles w s = (r, s1)"
  obtains (fail) "os_ReadDir s = (None, s1)" "r = Inl ErrReadDir"
  | (panic) e where "os_ReadDir s = (Some (map (\<lambda>(name, nd). (name, isdir nd)) (entries s)), s1)"
      "collect (fst (prefixAndExt w)) (snd (prefixAndExt w))
         (map (\<lambda>(name, nd). (name, isdir nd)) (entries s)) [] = Inl e" "r = Inl e"
  | (ok) fs where "os_ReadDir s = (Some (map (\<lambda>(name, nd). (name, isdir nd)) (entries s)), s1)"
      "collect (fst (prefixAndExt w)) (snd (prefixAndExt w))
         (map (\<lambda>(name, nd). (name, isdir nd)) (entries s)) [] = Inr fs"
      "r = Inr (sort_key (\<lambda>f. - timestamp f) fs)"
proof -
  obtain rd s0 where rd: "os_ReadDir s = (rd, s0)" by fastforce
  show ?thesis
  proof (cases rd)
    case None
    with assms rd have "r = Inl ErrReadDir" "s1 = s0" by (simp_all add: oldLogFiles_def)
    with rd None fail show ?thesis by simp
  next
    case (Some files)
    from os_ReadDir_spec[OF rd] Some
    have files: "files = map (\<lambda>(name, nd). (name, isdir nd)) (entries s)" by simp
    show ?thesis
    proof (cases "collect (fst (prefixAndExt w)) (snd (prefixAndExt w)) files []")
      case (Inl e)
      with assms rd Some have "r = Inl e" "s1 = s0"
        by (simp_all add: oldLogFiles_def split_beta)
      with rd Some Inl files panic show ?thesis by simp
    next
      case (Inr fs)
      with assms rd Some have "r = Inr (sort_key (\<lambda>f. - timestamp f) fs)" "s1 = s0"
        by (simp_all add: oldLogFiles_def split_beta)
      with rd Some Inr files ok show ?thesis by simp
    qed
  qed
qed

lemma oldLogFiles_frame:
  assumes "oldLogFiles w s = (r, s1)"
  shows "dir s1 = dir s \<and> clock s1 = clock s \<and> spawned s1 = spawned s
    \<and> (\<forall>k. k \<noteq> OpReadDir \<longrightarrow> faults s1 k = faults s k)"
proof -
  obtain rd where "os_ReadDir s = (rd, s1)"
    using assms by (cases rule: oldLogFiles_cases) simp_all
  from os_ReadDir_spec[OF this] os_ReadDir_faults[OF this] show ?thesis by simp
qed

lemma oldLogFiles_parsed:
  assumes "oldLogFiles w s = (Inr fs, s1)" and "f \<in> set fs"
  shows "\<exists>t. timeFromName (entry_name f) (fst (prefixAndExt w)) (snd (prefixAndExt w)) = Inr t"
  using assms(1)
proof (cases rule: oldLogFiles_cases)
  case (ok fs0)
  with assms(2) have "f \<in> set fs0" by simp
  from collect_spec[OF ok(2) this] show ?thesis by simp
qed simp_all

lemma oldLogFiles_error:
  assumes "oldLogFiles w s = (Inl e, s1)"
  shows "e = ErrReadDir \<or> (e = PanicSliceBounds \<and> (\<exists>x \<in> set (entries s).
      timeFromName (fst x) (fst (prefixAndExt w)) (snd (prefixAndExt w)) = Inl PanicSliceBounds))"
  using assms
proof (cases rule: oldLogFiles_cases)
  case fail
  then show ?thesis by simp
next
  case (panic e0)
  from collect_panic[OF panic(2)] obtain x where "e0 = PanicSliceBounds"
    "x \<in> set (map (\<lambda>(name, nd). (name, isdir nd)) (entries s))"
    "timeFromName (fst x) (fst (prefixAndExt w)) (snd (prefixAndExt w)) = Inl PanicSliceBounds"
    by blast
  then obtain y where "y \<in> set (entries s)" "fst y = fst x" by force
  with \<open>e0 = PanicSliceBounds\<close> panic(3)
    \<open>timeFromName (fst x) (fst (prefixAndExt w)) (snd (prefixAndExt w)) = Inl PanicSliceBounds\<close>
  show ?thesis by (intro disjI2 conjI bexI[of _ y]) simp_all
next
  case (ok fs)
  then show ?thesis by simp
qed

section \<open>The effect of the sweep\<close>

lemma mill_cases:
  assumes "mill w s = (r, s1)"
  obtains (off) "maxBackups w = 0" "maxAge w = 0" "r = None" "s1 = s"
  | (err) e where "oldLogFiles w s = (Inl e, s1)"
      "r = (if e = PanicSliceBounds then Some e else None)"
  | (sweep) fs s0 ds where "oldLogFiles w s = (Inr fs, s0)" "set ds \<subseteq> set fs"
      "s1 = remove_all ds s0" "r = None"
proof (cases "maxBackups w = 0 \<and> maxAge w = 0")
  case True
  with assms off show ?thesis by (simp add: mill_def)
next
  case False
  obtain ol s0 where ol: "oldLogFiles w s = (ol, s0)" by fastforce
  show ?thesis
  proof (cases ol)
    case (Inl e)
    with assms False ol have "s1 = s0" "r = (if e = PanicSliceBounds then Some e else None)"
      by (auto simp: mill_def)
    with ol Inl err show ?thesis by simp
  next
    case (Inr fs)
    define over where "over = (0 < maxBackups w \<and> maxBackups w < int (length fs))"
    define deletes where "deletes = (if over then drop (nat (maxBackups w)) fs else [])"
    define kept where "kept = (if over then take (nat (maxBackups w)) fs else fs)"
    define ds where "ds = (if 0 < maxAge w then
        deletes @ filter (\<lambda>f. timestamp f < clock s0 + wrap64 (- 1 * wrap64 (24 * Hour * maxAge w))) kept
      else deletes)"
    from assms False ol Inr have "r = None" "s1 = remove_all ds s0"
      by (auto simp: mill_def Let_def ds_def deletes_def kept_def over_def)
    moreover have "set deletes \<subseteq> set fs" "set kept \<subseteq> set fs"
      by (auto simp: deletes_def kept_def dest: in_set_dropD in_set_takeD)
    then have "set ds \<subseteq> set fs" by (auto simp: ds_def)
    ultimately show ?thesis using ol Inr sweep by simp
  qed
qed

lemma mill_off: "maxBackups w = 0 \<Longrightarrow> maxAge w = 0 \<Longrightarrow> mill w s = (None, s)"
  by (simp add: mill_def)

lemma mill_result: "mill w s = (r, s1) \<Longrightarrow> r = None \<or> r = Some PanicSliceBounds"
  by (cases rule: mill_cases) auto

lemma mill_frame:
  assumes "mill w s = (r, s1)"
  shows "clock s1 = clock s \<and> spawned s1 = spawned s
    \<and> (\<forall>k. k \<noteq> OpReadDir \<longrightarrow> k \<noteq> OpRemove \<longrightarrow> faults s1 k = faults s k)"
  using assms
proof (cases rule: mill_cases)
  case off
  then show ?thesis by simp
next
  case (err e)
  from oldLogFiles_frame[OF err(1)] show ?thesis by simp
next
  case (sweep fs s0 ds)
  from oldLogFiles_frame[OF sweep(1)] remove_all_frame[of ds s0] sweep(3) show ?thesis by simp
qed

lemma mill_lookup:
  assumes "mill w s = (r, s1)"
  shows "lookup s1 x = lookup s x \<or> lookup s1 x = None"
  using assms
proof (cases rule: mill_cases)
  case off
  then show ?thesis by simp
next
  case (err e)
  from oldLogFiles_frame[OF err(1)] have "lookup s1 = lookup s" by (intro lookup_dir) simp
  then show ?thesis by simp
next
  case (sweep fs s0 ds)
  from oldLogFiles_frame[OF sweep(1)] have "lookup s0 = lookup s" by (intro lookup_dir) simp
  with remove_all_cases[of ds s0 x] sweep(3) show ?thesis by simp
qed

lemma mill_keep:
  assumes "mill w s = (r, s1)"
    and "\<And>t. timeFromName x (fst (prefixAndExt w)) (snd (prefixAndExt w)) \<noteq> Inr t"
  shows "lookup s1 x = lookup s x"
  using assms(1)
proof (cases rule: mill_cases)
  case off
  then show ?thesis by simp
next
  case (err e)
  from oldLogFiles_frame[OF err(1)] have "lookup s1 = lookup s" by (intro lookup_dir) simp
  then show ?thesis by simp
next
  case (sweep fs s0 ds)
  from oldLogFiles_frame[OF sweep(1)] have l: "lookup s0 = lookup s" by (intro lookup_dir) simp
  have "x \<notin> entry_name ` set ds"
  proof
    assume "x \<in> entry_name ` set ds"
    then obtain f where "f \<in> set ds" "x = entry_name f" by blast
    with sweep(2) have "f \<in> set fs" by blast
    from oldLogFiles_parsed[OF sweep(1) this] \<open>x = entry_name f\<close> assms(2) show False by auto
  qed
  from remove_all_keep[OF this, of s0] l sweep(3) show ?thesis by simp
qed

lemma mill_active:
  assumes "mill w s = (r, s1)"
  shows "lookup s1 (active w) = lookup s (active w)"
  using mill_keep[OF assms, of "active w"] by (simp add: active_not_parsed)

lemma backupName_unparsed:
  "timeFromName (fst (backupName (filename w) t s)) (fst (prefixAndExt w)) (snd (prefixAndExt w))
     = Inl ErrParse"
proof -
  let ?base = "Base (filename w)"
  let ?p = "take (length ?base - length (Ext ?base)) ?base"
  obtain j where
    "fst (backupName_loop ?p (Format t) (Ext ?base) 1 s) = backupEntry ?p (Format t) j (Ext ?base)"
    using backupName_loop_shape by blast
  then show ?thesis
    by (simp add: backupName_def prefixAndExt_def Let_def timeFromName_backupEntry)
qed

lemma mill_keeps_backup:
  assumes "mill w s = (r, s1)"
  shows "lookup s1 (fst (backupName (filename w) t s'))
    = lookup s (fst (backupName (filename w) t s'))"
  using mill_keep[OF assms, of "fst (backupName (filename w) t s')"]
  by (simp add: backupName_unparsed)

lemma timeFromName_panic:
  assumes "timeFromName f (p @ ''-'') e = Inl PanicSliceBounds"
  shows "CHR ''-'' \<in> set e"
proof -
  from assms have hp: "HasPrefix f (p @ ''-'')" and hs: "HasSuffix f e"
    and lt: "length f - length e < length (p @ ''-'')"
    by (auto simp: timeFromName_def Let_def split: if_splits option.splits)
  from hp have lp: "length p < length f" and tk: "take (Suc (length p)) f = p @ ''-''"
    by (simp_all add: HasPrefix_def)
  from tk have "take (Suc (length p)) f ! length p = (p @ ''-'') ! length p" by simp
  then have fd: "f ! length p = CHR ''-''" by simp
  from hs have le: "length e \<le> length f" and dr: "drop (length f - length e) f = e"
    by (simp_all add: HasSuffix_def)
  from lt have k: "length f - length e \<le> length p" by simp
  have "e ! (length p - (length f - length e)) = f ! length p"
    using k lp by (subst dr[symmetric]) simp
  moreover have "length p - (length f - length e) < length e" using k lp le by arith
  ultimately show ?thesis using fd by (metis nth_mem)
qed

lemma mill_no_panic:
  assumes "mill w s = (r, s1)" and "CHR ''-'' \<notin> set (Ext (Base (filename w)))"
  shows "r = None"
  using assms(1)
proof (cases rule: mill_cases)
  case (err e)
  show ?thesis
  proof (cases "e = PanicSliceBounds")
    case True
    with oldLogFiles_error[OF err(1)] obtain x where
      "timeFromName (fst x) (fst (prefixAndExt w)) (snd (prefixAndExt w)) = Inl PanicSliceBounds"
      by auto
    then have "CHR ''-'' \<in> set (Ext (Base (filename w)))"
      using timeFromName_panic[of "fst x"
          "take (length (Base (filename w)) - length (Ext (Base (filename w)))) (Base (filename w))"
          "Ext (Base (filename w))"]
      by (simp add: prefixAndExt_def Let_def)
    with assms(2) show ?thesis by simp
  next
    case False
    with err show ?thesis by simp
  qed
qed simp_all

section \<open>The methods of the writer, step by step\<close>

lemma os_Stat_other_faults:
  "os_Stat name s = (r, s1) \<Longrightarrow> k \<noteq> OpStat \<Longrightarrow> faults s1 k = faults s k"
  by (auto simp: os_Stat_def fault_eq split: list.splits option.splits)

lemma backupName_loop_spec:
  "backupName_loop p ts e i s = (bn, s1) \<Longrightarrow>
     dir s1 = dir s \<and> clock s1 = clock s \<and> spawned s1 = spawned s \<and> lookup s bn = None
     \<and> (\<forall>k. k \<noteq> OpStat \<longrightarrow> faults s1 k = faults s k)"
proof (induction p ts e i s rule: backupName_loop.induct)
  case (1 prefix tstamp ext index s)
  obtain r s0 where st: "os_Stat (backupEntry prefix tstamp index ext) s = (r, s0)" by fastforce
  note sp = os_Stat_spec[OF st] os_Stat_other_faults[OF st]
  from sp have l: "lookup s0 = lookup s" by (intro lookup_dir) simp
  show ?case
  proof (cases r)
    case (Found nd)
    with "1.prems" st have "backupName_loop prefix tstamp ext (Suc index) s0 = (bn, s1)"
      by (subst (asm) backupName_loop.simps) simp
    from "1.IH"(1)[OF st[symmetric] Found this] sp l show ?thesis by simp
  next
    case NotExist
    with "1.prems" st have "bn = backupEntry prefix tstamp index ext" "s1 = s0"
      by (subst (asm) backupName_loop.simps, simp)+
    with sp NotExist show ?thesis by simp
  next
    case Failed
    with "1.prems" st have "backupName_loop prefix tstamp ext (Suc index) s0 = (bn, s1)"
      by (subst (asm) backupName_loop.simps) simp
    from "1.IH"(2)[OF st[symmetric] Failed this] sp l show ?thesis by simp
  qed
qed

lemma backupName_spec:
  "backupName n t s = (bn, s1) \<Longrightarrow>
     dir s1 = dir s \<and> clock s1 = clock s \<and> spawned s1 = spawned s \<and> lookup s bn = None
     \<and> (\<forall>k. k \<noteq> OpStat \<longrightarrow> faults s1 k = faults s k)"
  unfolding backupName_def Let_def by (rule backupName_loop_spec)

lemma close_spec:
  assumes "close w s = (w1, s1, r)"
  shows "w1 = w\<lparr>cur_file := None\<rparr> \<and> dir s1 = dir s \<and> clock s1 = clock s
    \<and> spawned s1 = spawned s \<and> (r = None \<or> r = Some ErrClose)"
proof (cases "cur_file w")
  case None
  with assms show ?thesis by (auto simp: close_def)
next
  case (Some h)
  obtain ok s0 where c: "os_Close h s = (ok, s0)" by fastforce
  from os_Close_spec[OF c] assms Some show ?thesis
    by (cases ok) (auto simp: close_def c)
qed

lemma openNew_create_cases:
  assumes "openNew_create w mode s = (w1, s1, r)"
  obtains (ok) "r = None" "w1 = w\<lparr>cur_file := Some (active w), cur_size := 0\<rparr>"
      "lookup s1 = (lookup s)(active w \<mapsto>
         \<lparr>content = [],
          perm = (case lookup s (active w) of None \<Rightarrow> mode - (mode AND umask s) | Some old \<Rightarrow> perm old),
          isdir = False\<rparr>)"
      "clock s1 = clock s" "spawned s1 = spawned s"
  | (fail) "r = Some ErrOpenNew" "w1 = w" "lookup s1 = lookup s"
      "clock s1 = clock s" "spawned s1 = spawned s"
proof -
  obtain c s0 where c: "os_Create (Base (filename w)) mode s = (c, s0)" by fastforce
  note sp = os_Create_spec[OF c]
  from sp have cl: "clock s0 = clock s" and spw: "spawned s0 = spawned s" by simp_all
  show ?thesis
  proof (cases c)
    case None
    with assms c have 1: "r = Some ErrOpenNew" and 2: "w1 = w" and 3: "s1 = s0"
      by (simp_all add: openNew_create_def)
    from sp None have "dir s0 = dir s" by simp
    then have 4: "lookup s0 = lookup s" by (rule lookup_dir)
    show ?thesis by (rule fail) (simp_all add: 1 2 3 4 cl spw)
  next
    case (Some h)
    from sp Some have h: "h = Base (filename w)" by simp
    from assms c Some have 1: "r = None"
      and 2: "w1 = w\<lparr>cur_file := Some (Base (filename w)), cur_size := 0\<rparr>" and 3: "s1 = s0"
      by (simp_all add: openNew_create_def h)
    from sp Some have 4: "lookup s0 = (lookup s)(Base (filename w) \<mapsto>
         \<lparr>content = [],
          perm = (case lookup s (Base (filename w)) of None \<Rightarrow> mode - (mode AND umask s) | Some old \<Rightarrow> perm old),
          isdir = False\<rparr>)" by simp
    show ?thesis by (rule ok) (simp_all add: 1 2 3 4 cl spw active_def)
  qed
qed

lemma openNew_cases:
  assumes "openNew w s = (w1, s1, r)"
  obtains (ok) nd where "r = None" "w1 = w\<lparr>cur_file := Some (active w), cur_size := 0\<rparr>"
      "lookup s1 (active w) = Some nd" "content nd = []" "\<not> isdir nd" "clock s1 = clock s"
  | (fail) "r = Some ErrMkdir \<or> r = Some ErrRename \<or> r = Some ErrOpenNew" "w1 = w"
      "lookup s1 (active w) = lookup s (active w) \<or> lookup s1 (active w) = None"
      "clock s1 = clock s"
proof -
  note done_ok = ok and done_fail = fail
  obtain mk sa where mk: "os_MkdirAll s = (mk, sa)" by fastforce
  note m = os_MkdirAll_spec[OF mk]
  from m have la: "lookup sa = lookup s" and ca: "clock sa = clock s" by simp_all
  show ?thesis
  proof (cases mk)
    case False
    with assms mk have "w1 = w" "s1 = sa" "r = Some ErrMkdir" by (simp_all add: openNew_def)
    with la ca show ?thesis by (intro done_fail) simp_all
  next
    case True
    obtain st sb where st: "os_Stat (Base (filename w)) sa = (st, sb)" by fastforce
    note t = os_Stat_spec[OF st]
    from t have "lookup sb = lookup sa" by (intro lookup_dir) simp
    with la have lb: "lookup sb = lookup s" by simp
    from t ca have cb: "clock sb = clock s" by simp
    have plain: ?thesis if oc: "openNew_create w 420 sb = (w1, s1, r)"
      using oc
    proof (cases rule: openNew_create_cases)
      case ok
      then show ?thesis using lb cb by (intro done_ok[OF ok(1,2)]) (simp, simp_all)
    next
      case fail
      then show ?thesis using lb cb by (intro done_fail) simp_all
    qed
    show ?thesis
    proof (cases st)
      case NotExist
      with assms mk True st have "openNew_create w 420 sb = (w1, s1, r)"
        by (simp add: openNew_def)
      then show ?thesis by (rule plain)
    next
      case Failed
      with assms mk True st have "openNew_create w 420 sb = (w1, s1, r)"
        by (simp add: openNew_def)
      then show ?thesis by (rule plain)
    next
      case (Found info)
      obtain bn sc where bn: "backupName (filename w) (clock sb) sb = (bn, sc)" by fastforce
      note b = backupName_spec[OF bn]
      from b have "lookup sc = lookup sb" by (intro lookup_dir) simp
      with lb have lc: "lookup sc = lookup s" by simp
      from b cb have cc: "clock sc = clock s" by simp
      obtain rn sd where rn: "os_Rename (Base (filename w)) bn sc = (rn, sd)" by fastforce
      note r = os_Rename_spec[OF rn]
      from r cc have cd: "clock sd = clock s" by simp
      from t Found la have act: "lookup s (active w) = Some info" by (simp add: active_def)
      from b lb have free: "lookup s bn = None" by simp
      from act free have ne: "bn \<noteq> active w" by auto
      show ?thesis
      proof (cases rn)
        case False
        with assms mk True st Found bn rn have "w1 = w" "s1 = sd" "r = Some ErrRename"
          by (simp_all add: openNew_def)
        moreover from r False have "lookup sd = lookup sc" by (intro lookup_dir) simp
        ultimately show ?thesis using lc cd by (intro done_fail) simp_all
      next
        case rt: True
        define se where "se = (if compress w then sd\<lparr>spawned := spawned sd @ [bn]\<rparr> else sd)"
        from assms mk True st Found bn rn rt
        have oc: "openNew_create w (perm info) se = (w1, s1, r)"
          by (simp add: openNew_def se_def)
        have le: "lookup se = lookup sd" and ce: "clock se = clock s" by (simp_all add: se_def cd)
        from r rt lc ne have gone: "lookup sd (active w) = None" by (auto simp: active_def)
        from oc show ?thesis
        proof (cases rule: openNew_create_cases)
          case ok
          then show ?thesis using ce by (intro done_ok[OF ok(1,2)]) (simp, simp_all)
        next
          case fail
          then show ?thesis using le gone ce by (intro done_fail) simp_all
        qed
      qed
    qed
  qed
qed

lemma active_upd [simp]:
  "active (w\<lparr>cur_file := f\<rparr>) = active w" "active (w\<lparr>cur_size := n\<rparr>) = active w"
  by (simp_all add: active_def)

lemma prefixAndExt_upd [simp]:
  "prefixAndExt (w\<lparr>cur_file := f\<rparr>) = prefixAndExt w"
  "prefixAndExt (w\<lparr>cur_size := n\<rparr>) = prefixAndExt w"
  by (simp_all add: prefixAndExt_def)

lemma rotate_cases:
  assumes "rotate_w w s = (w1, s1, r)"
  obtains (ok) nd where "r = None \<or> r = Some PanicSliceBounds"
      "w1 = w\<lparr>cur_file := Some (active w), cur_size := 0\<rparr>"
      "lookup s1 (active w) = Some nd" "content nd = []" "\<not> isdir nd" "clock s1 = clock s"
  | (fail) "r = Some ErrClose \<or> r = Some ErrMkdir \<or> r = Some ErrRename \<or> r = Some ErrOpenNew"
      "w1 = w\<lparr>cur_file := None\<rparr>"
      "lookup s1 (active w) = lookup s (active w) \<or> lookup s1 (active w) = None"
      "clock s1 = clock s"
proof -
  note done_ok = ok and done_fail = fail
  obtain w0 s0 r0 where c: "close w s = (w0, s0, r0)" using prod_cases3 by blast
  note cs = close_spec[OF c]
  from cs have w0: "w0 = w\<lparr>cur_file := None\<rparr>" and c0: "clock s0 = clock s" by simp_all
  from cs have "dir s0 = dir s" by simp
  then have l0: "lookup s0 = lookup s" by (rule lookup_dir)
  show ?thesis
  proof (cases r0)
    case (Some e)
    with cs have e: "e = ErrClose" by simp
    from assms c Some have "w1 = w0" "s1 = s0" "r = Some e" by (simp_all add: rotate_w_def)
    with w0 c0 l0 e show ?thesis by (intro done_fail) simp_all
  next
    case None
    obtain wa sa ra where o: "openNew w0 s0 = (wa, sa, ra)" using prod_cases3 by blast
    from o show ?thesis
    proof (cases rule: openNew_cases)
      case fail
      from fail(1) obtain e where ra: "ra = Some e" by auto
      with assms c None o have "w1 = wa" "s1 = sa" "r = ra" by (simp_all add: rotate_w_def)
      with fail w0 c0 l0 show ?thesis by (intro done_fail) simp_all
    next
      case (ok nd)
      obtain rm sm where m: "mill wa sa = (rm, sm)" by fastforce
      from assms c None o ok(1) m have 1: "w1 = wa" "s1 = sm" "r = rm"
        by (simp_all add: rotate_w_def)
      from mill_active[OF m] ok w0 have 2: "lookup sm (active w) = Some nd" by simp
      from mill_frame[OF m] ok c0 have 3: "clock sm = clock s" by simp
      from mill_result[OF m] have 4: "rm = None \<or> rm = Some PanicSliceBounds" .
      show ?thesis
        by (rule done_ok[of nd]) (use 1 2 3 4 ok w0 in simp_all)
    qed
  qed
qed

lemma openExistingOrNew_cases:
  assumes "openExistingOrNew w s n = (w1, s1, r)" and "cur_file w = None"
  obtains (fresh) nd where "r = None \<or> r = Some PanicSliceBounds"
      "w1 = w\<lparr>cur_file := Some (active w), cur_size := 0\<rparr>"
      "lookup s1 (active w) = Some nd" "content nd = []" "\<not> isdir nd"
  | (adopt) nd where "r = None"
      "w1 = w\<lparr>cur_file := Some (active w), cur_size := int (length (content nd))\<rparr>"
      "lookup s1 (active w) = Some nd" "\<not> isdir nd" "lookup s (active w) = Some nd"
      "\<not> maxSize w \<le> wrap64 (int (length (content nd)) + int n)"
  | (fail) "r \<noteq> None" "w1 = w"
      "lookup s1 (active w) = lookup s (active w) \<or> lookup s1 (active w) = None"
proof -
  note done_fresh = fresh and done_adopt = adopt and done_fail = fail
  have wn: "w\<lparr>cur_file := None\<rparr> = w" using assms(2) by simp
  obtain rm sm where m: "mill w s = (rm, sm)" by fastforce
  from mill_active[OF m] have lm: "lookup sm (active w) = lookup s (active w)" .
  show ?thesis
  proof (cases rm)
    case (Some e)
    with assms m have "w1 = w" "s1 = sm" "r = Some e" by (simp_all add: openExistingOrNew_def)
    with lm show ?thesis by (intro done_fail) simp_all
  next
    case None
    obtain st sb where st: "os_Stat (Base (filename w)) sm = (st, sb)" by fastforce
    note t = os_Stat_spec[OF st]
    from t have "lookup sb = lookup sm" by (intro lookup_dir) simp
    with lm have lb: "lookup sb (active w) = lookup s (active w)" by simp
    have viaNew: ?thesis if o: "openNew w sx = (w1, s1, r)"
      and lx: "lookup sx (active w) = lookup s (active w)" for sx
      using o
    proof (cases rule: openNew_cases)
      case (ok nd)
      then show ?thesis by (intro done_fresh[of nd]) simp_all
    next
      case fail
      then show ?thesis using lx by (intro done_fail) auto
    qed
    have viaRotate: ?thesis if o: "rotate_w w sx = (w1, s1, r)"
      and lx: "lookup sx (active w) = lookup s (active w)" for sx
      using o
    proof (cases rule: rotate_cases)
      case (ok nd)
      then show ?thesis by (intro done_fresh[of nd]) simp_all
    next
      case fail
      then show ?thesis using lx wn by (intro done_fail) auto
    qed
    show ?thesis
    proof (cases st)
      case NotExist
      with assms m None st have "openNew w sb = (w1, s1, r)"
        by (simp add: openExistingOrNew_def)
      from viaNew[OF this lb] show ?thesis .
    next
      case Failed
      with assms m None st have "w1 = w" "s1 = sb" "r = Some ErrStat"
        by (simp_all add: openExistingOrNew_def)
      with lb show ?thesis by (intro done_fail) simp_all
    next
      case (Found info)
      with t have "lookup sm (Base (filename w)) = Some info" by simp
      with lm have act: "lookup s (active w) = Some info" by (simp add: active_def)
      show ?thesis
      proof (cases "maxSize w \<le> wrap64 (int (length (content info)) + int n)")
        case True
        with assms m None st Found have "rotate_w w sb = (w1, s1, r)"
          by (simp add: openExistingOrNew_def)
        from viaRotate[OF this lb] show ?thesis .
      next
        case False
        obtain oa sc where oa: "os_OpenAppend (Base (filename w)) sb = (oa, sc)" by fastforce
        note a = os_OpenAppend_spec[OF oa]
        from a have "lookup sc = lookup sb" by (intro lookup_dir) simp
        with lb have lc: "lookup sc (active w) = lookup s (active w)" by simp
        show ?thesis
        proof (cases oa)
          case None
          with assms m \<open>rm = None\<close> st Found False oa have "openNew w sc = (w1, s1, r)"
            by (simp add: openExistingOrNew_def)
          from viaNew[OF this lc] show ?thesis .
        next
          case (Some h)
          with a have h: "h = Base (filename w)" by simp
          from a Some obtain nd where "lookup sb (Base (filename w)) = Some nd" "\<not> isdir nd"
            by auto
          with lb act have nd: "\<not> isdir info" by (simp add: active_def)
          from assms m \<open>rm = None\<close> st Found False oa Some h
          have "w1 = w\<lparr>cur_file := Some (active w), cur_size := int (length (content info))\<rparr>"
            "s1 = sc" "r = None"
            by (simp_all add: openExistingOrNew_def active_def)
          with lc act nd False show ?thesis by (intro done_adopt[of info]) simp_all
        qed
      qed
    qed
  qed
qed

section \<open>Writes keep the recorded size equal to the file's length\<close>

lemma wrap64_id: "- (2 ^ 63) \<le> x \<Longrightarrow> x < 2 ^ 63 \<Longrightarrow> wrap64 x = x"
  by (simp add: wrap64_def)

lemma opened_small: "opened w s \<Longrightarrow> maxSize w < 2 ^ 62 \<Longrightarrow> small w s"
  by (auto simp: opened_def small_def split: option.splits)

lemma opened_fresh:
  "0 \<le> maxSize w \<Longrightarrow> lookup s (active w) = Some nd \<Longrightarrow> content nd = [] \<Longrightarrow> \<not> isdir nd \<Longrightarrow>
     opened (w\<lparr>cur_file := Some (active w), cur_size := 0\<rparr>) s"
  by (simp add: opened_def)

lemma small_kept:
  "small w s \<Longrightarrow> lookup s1 (active w) = lookup s (active w) \<or> lookup s1 (active w) = None \<Longrightarrow>
     active w1 = active w \<Longrightarrow> small w1 s1"
  by (auto simp: small_def)

lemma sound_opened:
  "opened w s \<Longrightarrow> maxSize w < 2 ^ 62 \<Longrightarrow> cur_file w = Some (active w) \<Longrightarrow> sound w s"
  by (simp add: sound_def opened_small)

lemma sound_closed:
  "small w s \<Longrightarrow> maxSize w < 2 ^ 62 \<Longrightarrow> cur_file w = None \<Longrightarrow> sound w s"
  by (simp add: sound_def)

lemma Write_opened:
  assumes f: "cur_file w = Some (active w)" and o: "opened w s" and m: "maxSize w < 2 ^ 62"
    and l: "int (length p) \<le> maxSize w" and W: "Write w s p = (w1, s1, n, err)"
  shows "sound w1 s1 \<and> filename w1 = filename w \<and> maxSize w1 = maxSize w
    \<and> (err = None \<longrightarrow> n = length p \<and> cur_file w1 = Some (active w) \<and> opened w1 s1)"
proof -
  from o obtain nd where nd: "lookup s (active w) = Some nd" "\<not> isdir nd"
    "int (length (content nd)) = cur_size w" "cur_size w \<le> maxSize w"
    by (auto simp: opened_def split: option.splits)
  have pos: "0 \<le> maxSize w" using l by simp
  have c0: "0 \<le> cur_size w" using nd(3) by simp
  have wr: "wrap64 (cur_size w + int (length p)) = cur_size w + int (length p)"
    using c0 nd(4) m l by (intro wrap64_id) simp_all
  have sm: "small w s" using o m by (rule opened_small)
  have tail: "sound w1 s1 \<and> filename w1 = filename w \<and> maxSize w1 = maxSize w
      \<and> (err = None \<longrightarrow> n = length p \<and> cur_file w1 = Some (active w) \<and> opened w1 s1)"
    if fb: "cur_file wb = Some (active w)" and ob: "opened wb sb"
      and cfg: "filename wb = filename w" "maxSize wb = maxSize w"
      and room: "cur_size wb + int (length p) \<le> maxSize w"
      and fw: "file_Write (active w) p sb = ((n, err), sc)"
      and res: "w1 = wb\<lparr>cur_size := wrap64 (cur_size wb + int n)\<rparr>" "s1 = sc"
    for wb sb sc
  proof -
    have ab: "active wb = active w" using cfg by (simp add: active_def)
    from ob ab obtain nb where nb: "lookup sb (active w) = Some nb" "\<not> isdir nb"
      "int (length (content nb)) = cur_size wb" "cur_size wb \<le> maxSize w"
      by (auto simp: opened_def cfg split: option.splits)
    note sp = file_Write_spec[OF fw]
    from sp have nl: "n \<le> length p" by simp
    have cb: "0 \<le> cur_size wb" using nb(3) by simp
    have wn: "wrap64 (cur_size wb + int n) = cur_size wb + int n"
      using cb nl room m by (intro wrap64_id) simp_all
    have a1: "active w1 = active w" using res ab by simp
    from sp have "(n = 0 \<and> err \<noteq> None \<and> dir sc = dir sb)
        \<or> (\<exists>x. lookup sb (active w) = Some x \<and> \<not> isdir x
             \<and> lookup sc = (lookup sb)(active w \<mapsto> x\<lparr>content := content x @ take n p\<rparr>))"
      by simp
    then have op: "opened w1 s1"
    proof
      assume z: "n = 0 \<and> err \<noteq> None \<and> dir sc = dir sb"
      then have "lookup sc = lookup sb" by (intro lookup_dir) simp
      with nb z res wn a1 cfg show ?thesis by (simp add: opened_def)
    next
      assume "\<exists>x. lookup sb (active w) = Some x \<and> \<not> isdir x
             \<and> lookup sc = (lookup sb)(active w \<mapsto> x\<lparr>content := content x @ take n p\<rparr>)"
      with nb have "lookup sc = (lookup sb)(active w \<mapsto> nb\<lparr>content := content nb @ take n p\<rparr>)"
        by auto
      with nb res wn a1 cfg nl room show ?thesis by (simp add: opened_def)
    qed
    have "maxSize w1 = maxSize w" "filename w1 = filename w" "cur_file w1 = Some (active w)"
      using res cfg fb by simp_all
    moreover from this op m a1 have "sound w1 s1" by (intro sound_opened) simp_all
    moreover from sp have "err = None \<longrightarrow> n = length p" by simp
    ultimately show ?thesis using op by simp
  qed
  from l have nol: "\<not> maxSize w < int (length p)" by simp
  show ?thesis
  proof (cases "maxSize w < cur_size w + int (length p)")
    case False
    obtain sc where fw: "file_Write (active w) p s = ((n, err), sc)"
      and res: "w1 = w\<lparr>cur_size := wrap64 (cur_size w + int n)\<rparr>" "s1 = sc"
      using W f nol False wr by (auto simp: Write_def Let_def split: prod.splits)
    from False have "cur_size w + int (length p) \<le> maxSize w" by simp
    from tail[OF f o refl refl this fw res] show ?thesis .
  next
    case True
    obtain wa sa ra where r: "rotate_w w s = (wa, sa, ra)" using prod_cases3 by blast
    from r show ?thesis
    proof (cases rule: rotate_cases)
      case fail
      from fail(1) obtain e where e: "ra = Some e" by auto
      with W f nol True wr r have "w1 = wa" "s1 = sa" "err = Some e"
        by (auto simp: Write_def Let_def)
      moreover have "small wa sa" using sm fail(3) by (rule small_kept) (simp add: fail(2))
      ultimately show ?thesis using fail(2) m by (simp add: sound_closed)
    next
      case (ok x)
      have oa: "opened wa sa" using ok pos by (simp add: opened_fresh)
      have fa: "cur_file wa = Some (active w)" and cfg: "filename wa = filename w"
        "maxSize wa = maxSize w" and ca: "cur_size wa = 0" using ok(2) by simp_all
      show ?thesis
      proof (cases ra)
        case (Some e)
        with W f nol True wr r have "w1 = wa" "s1 = sa" "err = Some e"
          by (auto simp: Write_def Let_def)
        moreover from oa m fa cfg have "sound wa sa" by (intro sound_opened) (simp_all add: active_def)
        ultimately show ?thesis using cfg by simp
      next
        case None
        obtain sc where fw: "file_Write (active w) p sa = ((n, err), sc)"
          and res: "w1 = wa\<lparr>cur_size := wrap64 (cur_size wa + int n)\<rparr>" "s1 = sc"
          using W f nol True wr r None fa
          by (auto simp: Write_def Let_def split: prod.splits)
        have "cur_size wa + int (length p) \<le> maxSize w" using ca l by simp
        from tail[OF fa oa cfg this fw res] show ?thesis .
      qed
    qed
  qed
qed

lemma Write_open_failed:
  "cur_file w = None \<Longrightarrow> \<not> maxSize w < int (length p) \<Longrightarrow>
   openExistingOrNew w s (length p) = (wa, sa, Some e) \<Longrightarrow> Write w s p = (wa, sa, 0, Some e)"
  by (simp add: Write_def Let_def)

lemma Write_open_then_write:
  "cur_file w = None \<Longrightarrow> \<not> maxSize w < int (length p) \<Longrightarrow>
   openExistingOrNew w s (length p) = (wa, sa, None) \<Longrightarrow> cur_file wa \<noteq> None \<Longrightarrow>
   maxSize wa = maxSize w \<Longrightarrow> Write w s p = Write wa sa p"
  by (cases "cur_file wa") (simp_all add: Write_def Let_def)

lemma Write_sound:
  assumes snd: "sound w s" and l: "int (length p) \<le> maxSize w"
    and W: "Write w s p = (w1, s1, n, err)"
  shows "sound w1 s1 \<and> filename w1 = filename w \<and> maxSize w1 = maxSize w
    \<and> (err = None \<longrightarrow> n = length p \<and> cur_file w1 = Some (active w) \<and> opened w1 s1)"
proof (cases "cur_file w")
  case (Some h)
  with snd have "cur_file w = Some (active w)" "opened w s" "maxSize w < 2 ^ 62"
    by (simp_all add: sound_def)
  from Write_opened[OF this l W] show ?thesis .
next
  case None
  from snd have m: "maxSize w < 2 ^ 62" and sm: "small w s" by (simp_all add: sound_def)
  from l have nol: "\<not> maxSize w < int (length p)" and pos: "0 \<le> maxSize w" by simp_all
  obtain wa sa ra where o: "openExistingOrNew w s (length p) = (wa, sa, ra)"
    using prod_cases3 by blast
  from o None show ?thesis
  proof (cases rule: openExistingOrNew_cases)
    case (fresh nd)
    have oa: "opened wa sa" using fresh pos by (simp add: opened_fresh)
    have fa: "cur_file wa = Some (active wa)" and cfg: "filename wa = filename w"
      "maxSize wa = maxSize w" "active wa = active w" using fresh(2) by simp_all
    show ?thesis
    proof (cases ra)
      case (Some e)
      with Write_open_failed[OF None nol] o W have "w1 = wa" "s1 = sa" "err = Some e" by simp_all
      moreover have "sound wa sa" using oa m fa cfg by (intro sound_opened) simp_all
      ultimately show ?thesis using cfg by simp
    next
      case rn: None
      with Write_open_then_write[OF None nol _ _ cfg(2)] o fa W
      have "Write wa sa p = (w1, s1, n, err)" by simp
      from Write_opened[OF fa oa _ _ this] m l cfg show ?thesis by simp
    qed
  next
    case (adopt nd)
    from sm adopt(5) have s62: "int (length (content nd)) < 2 ^ 62" by (simp add: small_def)
    have "wrap64 (int (length (content nd)) + int (length p))
        = int (length (content nd)) + int (length p)"
      using s62 l m by (intro wrap64_id) simp_all
    with adopt(6) have lt: "int (length (content nd)) + int (length p) < maxSize w" by simp
    have oa: "opened wa sa" using adopt(2,3,4) lt by (simp add: opened_def)
    have fa: "cur_file wa = Some (active wa)" and cfg: "filename wa = filename w"
      "maxSize wa = maxSize w" "active wa = active w" using adopt(2) by simp_all
    from Write_open_then_write[OF None nol _ _ cfg(2)] o adopt(1) fa W
    have "Write wa sa p = (w1, s1, n, err)" by simp
    from Write_opened[OF fa oa _ _ this] m l cfg show ?thesis by simp
  next
    case fail
    from fail(1) obtain e where e: "ra = Some e" by auto
    with Write_open_failed[OF None nol] o W have "w1 = wa" "s1 = sa" "err = Some e" by simp_all
    moreover have "small wa sa" using sm fail(3) by (rule small_kept) (simp add: fail(2))
    ultimately show ?thesis using fail(2) m None by (simp add: sound_closed)
  qed
qed

lemma opened_clock [simp]: "opened w (s\<lparr>clock := t\<rparr>) = opened w s"
  by (simp add: opened_def)

lemma sound_clock [simp]: "sound w (s\<lparr>clock := t\<rparr>) = sound w s"
  by (simp add: sound_def small_def cong: option.case_cong)

lemma Writes_sound:
  "sound w s \<Longrightarrow> \<forall>tp \<in> set ps. int (length (snd tp)) \<le> maxSize w \<Longrightarrow>
   (w1, s1, n, None) \<in> set (Writes w s ps) \<Longrightarrow>
   opened w1 s1 \<and> cur_file w1 = Some (active w) \<and> filename w1 = filename w
     \<and> maxSize w1 = maxSize w"
proof (induction ps arbitrary: w s)
  case Nil
  then show ?case by simp
next
  case (Cons a ps)
  obtain t p where a: "a = (t, p)" by (cases a)
  obtain wa sa na ea where W: "Write w (s\<lparr>clock := t\<rparr>) p = (wa, sa, na, ea)"
    using prod_cases4 by blast
  from Cons.prems(2) a have l: "int (length p) \<le> maxSize w" by simp
  from Cons.prems(1) have "sound w (s\<lparr>clock := t\<rparr>)" by simp
  note step = Write_sound[OF this l W]
  from Cons.prems(3) a W
  have "(w1, s1, n, None) = (wa, sa, na, ea) \<or> (w1, s1, n, None) \<in> set (Writes wa sa ps)"
    by simp
  then show ?case
  proof
    assume "(w1, s1, n, None) = (wa, sa, na, ea)"
    with step show ?thesis by simp
  next
    assume later: "(w1, s1, n, None) \<in> set (Writes wa sa ps)"
    from step have sa: "sound wa sa" and cfg: "filename wa = filename w" "maxSize wa = maxSize w"
      by simp_all
    from Cons.prems(2) cfg have "\<forall>tp \<in> set ps. int (length (snd tp)) \<le> maxSize wa" by simp
    from Cons.IH[OF sa this later] cfg show ?thesis by (simp add: active_def)
  qed
qed

lemma openExistingOrNew_opened:
  assumes "openExistingOrNew w s n = (w1, s1, None)" and "cur_file w = None"
  shows "cur_file w1 = Some (active w) \<and> maxSize w1 = maxSize w"
  using assms by (cases rule: openExistingOrNew_cases) simp_all

section \<open>The creation mask is never changed\<close>

lemma fault_umask: "fault k s = (r, s1) \<Longrightarrow> umask s1 = umask s"
  by (auto simp add: fault_eq)

lemma os_ReadDir_umask: "os_ReadDir s = (r, s1) \<Longrightarrow> umask s1 = umask s"
  by (auto simp add: os_ReadDir_def fault_eq split: option.splits list.splits)

lemma os_Remove_umask: "os_Remove name s = (ok, s1) \<Longrightarrow> umask s1 = umask s"
  by (auto simp add: os_Remove_def fault_eq split: option.splits list.splits)

lemma os_OpenAppend_umask: "os_OpenAppend name s = (r, s1) \<Longrightarrow> umask s1 = umask s"
  by (auto simp add: os_OpenAppend_def fault_eq split: option.splits list.splits if_splits)

lemma remove_all_umask: "umask (remove_all ds s) = umask s"
proof (induction ds arbitrary: s)
  case Nil
  then show ?case by simp
next
  case (Cons d ds)
  obtain ok s1 where r: "os_Remove (entry_name d) s = (ok, s1)" by fastforce
  from os_Remove_umask[OF r] Cons.IH[of s1] show ?case by (simp add: r)
qed

lemma oldLogFiles_umask:
  assumes "oldLogFiles w s = (r, s1)"
  shows "umask s1 = umask s"
proof -
  obtain rd where "os_ReadDir s = (rd, s1)"
    using assms by (cases rule: oldLogFiles_cases) simp_all
  then show ?thesis by (rule os_ReadDir_umask)
qed

lemma mill_umask:
  assumes "mill w s = (r, s1)"
  shows "umask s1 = umask s"
  using assms
proof (cases rule: mill_cases)
  case off
  then show ?thesis by simp
next
  case (err e)
  from oldLogFiles_umask[OF err(1)] show ?thesis .
next
  case (sweep fs s0 ds)
  from oldLogFiles_umask[OF sweep(1)] remove_all_umask[of ds s0] sweep(3) show ?thesis by simp
qed

section \<open>System calls that do not fail\<close>

lemma os_Stat_quiet:
  "faults s OpStat = [] \<Longrightarrow>
   os_Stat name s = (case lookup s name of None \<Rightarrow> NotExist | Some nd \<Rightarrow> Found nd, s)"
  by (simp add: os_Stat_def fault_empty split: option.splits)

lemma os_MkdirAll_quiet:
  "faults s OpMkdirAll = [] \<Longrightarrow> os_MkdirAll s = (True, s\<lparr>dir := Some (entries s)\<rparr>)"
  by (simp add: os_MkdirAll_def fault_empty)

lemma os_Rename_quiet:
  "faults s OpRename = [] \<Longrightarrow> lookup s old = Some nd \<Longrightarrow>
   os_Rename old new s
     = (True, s\<lparr>dir := Some (AList.update new nd (AList.delete old (entries s)))\<rparr>)"
  by (simp add: os_Rename_def fault_empty)

lemma os_Create_quiet:
  "faults s OpCreate = [] \<Longrightarrow> dir s = Some es \<Longrightarrow> map_of es name = None \<Longrightarrow>
   os_Create name mode s
     = (Some name,
        s\<lparr>dir := Some (AList.update name
                         \<lparr>content = [], perm = mode - (mode AND umask s), isdir = False\<rparr> es)\<rparr>)"
  by (simp add: os_Create_def fault_empty)

lemma os_Close_quiet: "faults s OpClose = [] \<Longrightarrow> os_Close h s = (True, s)"
  by (simp add: os_Close_def fault_empty)

lemma file_Write_quiet:
  "faults s OpWrite = [] \<Longrightarrow> lookup s h = Some nd \<Longrightarrow> \<not> isdir nd \<Longrightarrow>
   file_Write h p s
     = ((length p, None),
        s\<lparr>dir := Some (AList.update h (nd\<lparr>content := content nd @ p\<rparr>) (entries s))\<rparr>)"
  by (simp add: file_Write_def fault_empty)

lemma os_OpenAppend_faults:
  "os_OpenAppend name s = (r, s1) \<Longrightarrow> k \<noteq> OpOpenAppend \<Longrightarrow> faults s1 k = faults s k"
  by (auto simp add: os_OpenAppend_def fault_eq split: option.splits if_splits list.splits)

lemma backupName_loop_quiet:
  "faults s OpStat = [] \<Longrightarrow>
   \<exists>j\<ge>i. backupName_loop p ts e i s = (backupEntry p ts j e, s)
     \<and> lookup s (backupEntry p ts j e) = None
     \<and> (\<forall>k. i \<le> k \<longrightarrow> k < j \<longrightarrow> lookup s (backupEntry p ts k e) \<noteq> None)"
proof (induction p ts e i s rule: backupName_loop.induct)
  case (1 p ts e i s)
  note st = os_Stat_quiet[OF "1.prems", of "backupEntry p ts i e"]
  show ?case
  proof (cases "lookup s (backupEntry p ts i e)")
    case None
    with st have "backupName_loop p ts e i s = (backupEntry p ts i e, s)"
      by (simp add: backupName_loop.simps[of p ts e i s])
    with None show ?thesis by (intro exI[of _ i]) simp
  next
    case (Some nd)
    with st have f: "os_Stat (backupEntry p ts i e) s = (Found nd, s)" by simp
    then have eq: "backupName_loop p ts e i s = backupName_loop p ts e (Suc i) s"
      by (simp add: backupName_loop.simps[of p ts e i s])
    from "1.IH"(1)[OF f[symmetric] refl "1.prems"] obtain j where j: "Suc i \<le> j"
      "backupName_loop p ts e (Suc i) s = (backupEntry p ts j e, s)"
      "lookup s (backupEntry p ts j e) = None"
      "\<forall>k. Suc i \<le> k \<longrightarrow> k < j \<longrightarrow> lookup s (backupEntry p ts k e) \<noteq> None"
      by blast
    have "\<forall>k. i \<le> k \<longrightarrow> k < j \<longrightarrow> lookup s (backupEntry p ts k e) \<noteq> None"
    proof (intro allI impI)
      fix k assume "i \<le> k" "k < j"
      then consider "k = i" | "Suc i \<le> k" by linarith
      then show "lookup s (backupEntry p ts k e) \<noteq> None"
        using Some j(4) \<open>k < j\<close> by cases simp_all
    qed
    with j eq show ?thesis by (intro exI[of _ j]) simp
  qed
qed

lemma backupName_quiet:
  assumes "faults s OpStat = []"
  obtains j where "1 \<le> j" "backupName n t s = (candidate n t j, s)"
    "lookup s (candidate n t j) = None"
    "\<forall>k. 1 \<le> k \<longrightarrow> k < j \<longrightarrow> lookup s (candidate n t k) \<noteq> None"
  using backupName_loop_quiet[OF assms,
      of 1 "take (length (Base n) - length (Ext (Base n))) (Base n)" "Format t" "Ext (Base n)"]
  by (auto simp add: backupName_def candidate_def Let_def)

lemma openNew_quiet:
  assumes q: "faults s OpMkdirAll = []" "faults s OpStat = []" "faults s OpRename = []"
      "faults s OpCreate = []"
    and a: "lookup s (active w) = Some nd"
  obtains j s1 where "1 \<le> j"
    "openNew w s = (w\<lparr>cur_file := Some (active w), cur_size := 0\<rparr>, s1, None)"
    "lookup s (candidate (filename w) (clock s) j) = None"
    "\<forall>k. 1 \<le> k \<longrightarrow> k < j \<longrightarrow> lookup s (candidate (filename w) (clock s) k) \<noteq> None"
    "lookup s1 = ((lookup s)(candidate (filename w) (clock s) j \<mapsto> nd))
                   (active w \<mapsto> \<lparr>content = [], perm = perm nd - (perm nd AND umask s), isdir = False\<rparr>)"
    "clock s1 = clock s" "faults s1 = faults s"
    "spawned s1 = (if compress w then spawned s @ [candidate (filename w) (clock s) j]
                   else spawned s)"
    "umask s1 = umask s"
proof -
  define sd where "sd = s\<lparr>dir := Some (entries s)\<rparr>"
  have ld: "lookup sd = lookup s" by (simp add: sd_def lookup_def fun_eq_iff)
  have fd: "faults sd = faults s" and cd: "clock sd = clock s" and pd: "spawned sd = spawned s"
    and ed: "entries sd = entries s" and ud: "umask sd = umask s"
    by (simp_all add: sd_def)
  from q(2) fd have qd: "faults sd OpStat = []" by simp
  obtain j where j: "1 \<le> j"
    "backupName (filename w) (clock s) sd = (candidate (filename w) (clock s) j, sd)"
    "lookup sd (candidate (filename w) (clock s) j) = None"
    "\<forall>k. 1 \<le> k \<longrightarrow> k < j \<longrightarrow> lookup sd (candidate (filename w) (clock s) k) \<noteq> None"
    by (rule backupName_quiet[OF qd])
  define bn where "bn = candidate (filename w) (clock s) j"
  from j(3) a ld have ne: "bn \<noteq> active w" by (auto simp add: bn_def)
  define es where "es = AList.update bn nd (AList.delete (active w) (entries s))"
  define sf where "sf = (if compress w then sd\<lparr>dir := Some es, spawned := spawned s @ [bn]\<rparr>
                         else sd\<lparr>dir := Some es\<rparr>)"
  define s1 where "s1 = sf\<lparr>dir := Some (AList.update (active w)
                          \<lparr>content = [], perm = perm nd - (perm nd AND umask s), isdir = False\<rparr> es)\<rparr>"
  have m: "os_MkdirAll s = (True, sd)" using q(1) by (simp add: os_MkdirAll_quiet sd_def)
  have t: "os_Stat (active w) sd = (Found nd, sd)" using qd a ld by (simp add: os_Stat_quiet)
  have r: "os_Rename (active w) bn sd = (True, sd\<lparr>dir := Some es\<rparr>)"
    using q(3) a ld fd ed by (simp add: os_Rename_quiet es_def)
  have mes: "map_of es = ((lookup s)(active w := None))(bn \<mapsto> nd)"
    by (simp add: es_def update_conv' delete_conv' lookup_def fun_eq_iff)
  have c: "os_Create (active w) (perm nd) sf = (Some (active w), s1)"
    using q(4) fd ne ud by (intro trans[OF os_Create_quiet[where es = es]])
      (simp_all add: sf_def s1_def mes)
  have "openNew w s = (w\<lparr>cur_file := Some (active w), cur_size := 0\<rparr>, s1, None)"
    using m t j(2) r c cd pd
    by (simp add: openNew_def openNew_create_def active_def[symmetric] bn_def[symmetric] sf_def
        split: if_splits)
  moreover have "lookup s1 = ((lookup s)(bn \<mapsto> nd))
                   (active w \<mapsto> \<lparr>content = [], perm = perm nd - (perm nd AND umask s), isdir = False\<rparr>)"
    using ne by (simp add: s1_def update_conv' mes fun_eq_iff)
  moreover have "clock s1 = clock s" "faults s1 = faults s"
    "spawned s1 = (if compress w then spawned s @ [bn] else spawned s)" "umask s1 = umask s"
    by (simp_all add: s1_def sf_def sd_def)
  ultimately show ?thesis using j(1,3,4) ld that[of j s1] by (simp add: bn_def)
qed

lemma Write_on_fresh:
  assumes w1: "w1 = w\<lparr>cur_file := Some (active w), cur_size := 0\<rparr>"
    and l: "int (length p) \<le> maxSize w" and b: "maxSize w < 2 ^ 63"
    and f: "faults s OpWrite = []"
    and a: "lookup s (active w) = Some \<lparr>content = [], perm = m, isdir = False\<rparr>"
  obtains s1 where
    "Write w1 s p = (w\<lparr>cur_file := Some (active w), cur_size := int (length p)\<rparr>, s1, length p, None)"
    "lookup s1 = (lookup s)(active w \<mapsto> \<lparr>content = p, perm = m, isdir = False\<rparr>)"
    "clock s1 = clock s" "faults s1 = faults s" "spawned s1 = spawned s"
proof -
  define s1 where "s1 = s\<lparr>dir := Some (AList.update (active w)
      \<lparr>content = p, perm = m, isdir = False\<rparr> (entries s))\<rparr>"
  have wr: "wrap64 (int (length p)) = int (length p)" using l b by (intro wrap64_id) simp_all
  have fw: "file_Write (active w) p s = ((length p, None), s1)"
    using f a by (simp add: file_Write_quiet s1_def)
  have "Write w1 s p
      = (w\<lparr>cur_file := Some (active w), cur_size := int (length p)\<rparr>, s1, length p, None)"
    using l fw wr by (simp add: Write_def Let_def w1)
  moreover have "lookup s1 = (lookup s)(active w \<mapsto> \<lparr>content = p, perm = m, isdir = False\<rparr>)"
    by (simp add: s1_def update_conv' map_of_entries)
  moreover have "clock s1 = clock s" "faults s1 = faults s" "spawned s1 = spawned s"
    by (simp_all add: s1_def)
  ultimately show ?thesis by (rule that)
qed

section \<open>A rotation in which no system call fails\<close>

lemma candidate_unparsed:
  "timeFromName (candidate (filename w) t j) (fst (prefixAndExt w)) (snd (prefixAndExt w))
     = Inl ErrParse"
  by (simp add: candidate_def prefixAndExt_def Let_def timeFromName_backupEntry)

lemma candidate_inj: "candidate n t k = candidate n t j \<Longrightarrow> k = j"
  by (simp add: candidate_def Let_def backupEntry_inj)

lemma close_quiet: "faults s OpClose = [] \<Longrightarrow> close w s = (w\<lparr>cur_file := None\<rparr>, s, None)"
  by (cases "cur_file w") (simp_all add: close_def os_Close_quiet)

lemma rotate_quiet:
  assumes q: "faults s OpClose = []" "faults s OpMkdirAll = []" "faults s OpStat = []"
      "faults s OpRename = []" "faults s OpCreate = []"
    and a: "lookup s (active w) = Some nd"
  obtains j s1 r where "1 \<le> j"
    "rotate_w w s = (w\<lparr>cur_file := Some (active w), cur_size := 0\<rparr>, s1, r)"
    "r = None \<or> r = Some PanicSliceBounds"
    "CHR ''-'' \<notin> set (Ext (active w)) \<longrightarrow> r = None"
    "lookup s (candidate (filename w) (clock s) j) = None"
    "\<forall>k. 1 \<le> k \<longrightarrow> k < j \<longrightarrow> lookup s (candidate (filename w) (clock s) k) \<noteq> None"
    "lookup s1 (candidate (filename w) (clock s) j) = Some nd"
    "lookup s1 (active w) = Some \<lparr>content = [], perm = perm nd - (perm nd AND umask s), isdir = False\<rparr>"
    "\<forall>x. x \<noteq> candidate (filename w) (clock s) j \<longrightarrow> x \<noteq> active w \<longrightarrow>
        lookup s1 x = lookup s x \<or> lookup s1 x = None"
    "clock s1 = clock s" "faults s1 OpWrite = faults s OpWrite"
    "spawned s1 = (if compress w then spawned s @ [candidate (filename w) (clock s) j]
                   else spawned s)"
    "umask s1 = umask s"
proof -
  define w0 where "w0 = w\<lparr>cur_file := None\<rparr>"
  have w0: "active w0 = active w" "filename w0 = filename w" "compress w0 = compress w"
    "w0\<lparr>cur_file := Some (active w), cur_size := 0\<rparr> = w\<lparr>cur_file := Some (active w), cur_size := 0\<rparr>"
    by (simp_all add: w0_def)
  from a w0 have a0: "lookup s (active w0) = Some nd" by simp
  define w2 where "w2 = w\<lparr>cur_file := Some (active w), cur_size := 0\<rparr>"
  obtain j s2 where j0: "1 \<le> j"
    "openNew w0 s = (w0\<lparr>cur_file := Some (active w0), cur_size := 0\<rparr>, s2, None)"
    "lookup s (candidate (filename w0) (clock s) j) = None"
    "\<forall>k. 1 \<le> k \<longrightarrow> k < j \<longrightarrow> lookup s (candidate (filename w0) (clock s) k) \<noteq> None"
    "lookup s2 = ((lookup s)(candidate (filename w0) (clock s) j \<mapsto> nd))
                   (active w0 \<mapsto> \<lparr>content = [], perm = perm nd - (perm nd AND umask s), isdir = False\<rparr>)"
    "clock s2 = clock s" "faults s2 = faults s"
    "spawned s2 = (if compress w0 then spawned s @ [candidate (filename w0) (clock s) j]
                   else spawned s)"
    "umask s2 = umask s"
    by (rule openNew_quiet[OF q(2-5) a0])
  from j0 w0 have j: "1 \<le> j"
    "openNew w0 s = (w2, s2, None)"
    "lookup s (candidate (filename w) (clock s) j) = None"
    "\<forall>k. 1 \<le> k \<longrightarrow> k < j \<longrightarrow> lookup s (candidate (filename w) (clock s) k) \<noteq> None"
    "lookup s2 = ((lookup s)(candidate (filename w) (clock s) j \<mapsto> nd))
                   (active w \<mapsto> \<lparr>content = [], perm = perm nd - (perm nd AND umask s), isdir = False\<rparr>)"
    "clock s2 = clock s" "faults s2 = faults s"
    "spawned s2 = (if compress w then spawned s @ [candidate (filename w) (clock s) j]
                   else spawned s)"
    "umask s2 = umask s"
    by (simp_all add: w2_def)
  obtain r s1 where m: "mill w2 s2 = (r, s1)" by fastforce
  have f2: "filename w2 = filename w" "active w2 = active w" by (simp_all add: w2_def)
  have R: "rotate_w w s = (w2, s1, r)"
    using close_quiet[OF q(1), of w] j(2) m by (simp add: rotate_w_def w0_def)
  from a j(3) have ne: "candidate (filename w) (clock s) j \<noteq> active w" by auto
  note fr = mill_frame[OF m]
  have "lookup s1 (candidate (filename w) (clock s) j)
      = lookup s2 (candidate (filename w) (clock s) j)"
    using candidate_unparsed[of w2 "clock s" j] f2
    by (intro mill_keep[OF m]) simp
  with j(5) ne have B: "lookup s1 (candidate (filename w) (clock s) j) = Some nd" by simp
  from mill_active[OF m] f2 j(5)
  have A: "lookup s1 (active w) = Some \<lparr>content = [], perm = perm nd - (perm nd AND umask s), isdir = False\<rparr>" by simp
  have O: "\<forall>x. x \<noteq> candidate (filename w) (clock s) j \<longrightarrow> x \<noteq> active w \<longrightarrow>
        lookup s1 x = lookup s x \<or> lookup s1 x = None"
  proof (intro allI impI)
    fix x assume "x \<noteq> candidate (filename w) (clock s) j" "x \<noteq> active w"
    with j(5) have "lookup s2 x = lookup s x" by simp
    with mill_lookup[OF m, of x] show "lookup s1 x = lookup s x \<or> lookup s1 x = None" by simp
  qed
  have P: "CHR ''-'' \<notin> set (Ext (active w)) \<longrightarrow> r = None"
    using mill_no_panic[OF m] f2 by (simp add: active_def)
  from fr j(6,7,8) have F: "clock s1 = clock s" "faults s1 OpWrite = faults s OpWrite"
    "spawned s1 = (if compress w then spawned s @ [candidate (filename w) (clock s) j]
                   else spawned s)" by simp_all
  from mill_umask[OF m] j(9) have U: "umask s1 = umask s" by simp
  show ?thesis
    by (rule that[of j s1 r, OF j(1) R[unfolded w2_def] mill_result[OF m] P j(3) j(4) B A O F U])
qed

section \<open>System calls that fail\<close>

lemma fault_fails:
  "faults s k = Some c # fs \<Longrightarrow> fault k s = (Some c, s\<lparr>faults := (faults s)(k := fs)\<rparr>)"
  by (simp add: fault_def)

lemma os_MkdirAll_fails:
  "faults s OpMkdirAll = Some c # fs \<Longrightarrow>
   os_MkdirAll s = (False, s\<lparr>faults := (faults s)(OpMkdirAll := fs)\<rparr>)"
  by (simp add: os_MkdirAll_def fault_fails)

lemma os_Rename_fails:
  "faults s OpRename = Some c # fs \<Longrightarrow>
   os_Rename old new s = (False, s\<lparr>faults := (faults s)(OpRename := fs)\<rparr>)"
  by (simp add: os_Rename_def fault_fails)

lemma os_Create_fails:
  "faults s OpCreate = Some c # fs \<Longrightarrow>
   os_Create name mode s = (None, s\<lparr>faults := (faults s)(OpCreate := fs)\<rparr>)"
  by (simp add: os_Create_def fault_fails)

lemma openNew_mkdir_fails:
  "faults s OpMkdirAll = Some c # fs \<Longrightarrow>
   openNew w s = (w, s\<lparr>faults := (faults s)(OpMkdirAll := fs)\<rparr>, Some ErrMkdir)"
  by (simp add: openNew_def os_MkdirAll_fails)

lemma openNew_rename_fails:
  assumes q: "faults s OpMkdirAll = []" "faults s OpStat = []"
    and a: "lookup s (active w) = Some nd"
    and f: "faults s OpRename = Some c # fs"
  shows "\<exists>s1. openNew w s = (w, s1, Some ErrRename)"
proof -
  define sd where "sd = s\<lparr>dir := Some (entries s)\<rparr>"
  have ld: "lookup sd = lookup s" by (simp add: sd_def lookup_def fun_eq_iff)
  have qd: "faults sd OpStat = []" and fd: "faults sd OpRename = Some c # fs"
    and cd: "clock sd = clock s" using q(2) f by (simp_all add: sd_def)
  obtain j where j: "1 \<le> j"
    "backupName (filename w) (clock s) sd = (candidate (filename w) (clock s) j, sd)"
    "lookup sd (candidate (filename w) (clock s) j) = None"
    "\<forall>k. 1 \<le> k \<longrightarrow> k < j \<longrightarrow> lookup sd (candidate (filename w) (clock s) k) \<noteq> None"
    by (rule backupName_quiet[OF qd])
  have m: "os_MkdirAll s = (True, sd)" using q(1) by (simp add: os_MkdirAll_quiet sd_def)
  have t: "os_Stat (active w) sd = (Found nd, sd)" using qd a ld by (simp add: os_Stat_quiet)
  have "openNew w s = (w, sd\<lparr>faults := (faults sd)(OpRename := fs)\<rparr>, Some ErrRename)"
    using m t j(2) cd os_Rename_fails[OF fd]
    by (simp add: openNew_def active_def[symmetric])
  then show ?thesis by blast
qed

lemma openNew_create_fails:
  assumes q: "faults s OpMkdirAll = []" "faults s OpStat = []" "faults s OpRename = []"
    and f: "faults s OpCreate = Some c # fs"
  shows "\<exists>s1. openNew w s = (w, s1, Some ErrOpenNew)"
proof -
  define sd where "sd = s\<lparr>dir := Some (entries s)\<rparr>"
  have ld: "lookup sd = lookup s" by (simp add: sd_def lookup_def fun_eq_iff)
  have qd: "faults sd OpStat = []" and rd: "faults sd OpRename = []"
    and fd: "faults sd OpCreate = Some c # fs"
    and cd: "clock sd = clock s" and ed: "entries sd = entries s"
    using q(2,3) f by (simp_all add: sd_def)
  have m: "os_MkdirAll s = (True, sd)" using q(1) by (simp add: os_MkdirAll_quiet sd_def)
  show ?thesis
  proof (cases "lookup s (active w)")
    case None
    with qd ld have t: "os_Stat (active w) sd = (NotExist, sd)" by (simp add: os_Stat_quiet)
    have "openNew w s = (w, sd\<lparr>faults := (faults sd)(OpCreate := fs)\<rparr>, Some ErrOpenNew)"
      using m t os_Create_fails[OF fd]
      by (simp add: openNew_def openNew_create_def active_def[symmetric])
    then show ?thesis by blast
  next
    case (Some nd)
    with qd ld have t: "os_Stat (active w) sd = (Found nd, sd)" by (simp add: os_Stat_quiet)
    obtain j where j: "1 \<le> j"
      "backupName (filename w) (clock s) sd = (candidate (filename w) (clock s) j, sd)"
      "lookup sd (candidate (filename w) (clock s) j) = None"
      "\<forall>k. 1 \<le> k \<longrightarrow> k < j \<longrightarrow> lookup sd (candidate (filename w) (clock s) k) \<noteq> None"
      by (rule backupName_quiet[OF qd])
    define bn where "bn = candidate (filename w) (clock s) j"
    define se where "se = sd\<lparr>dir := Some (AList.update bn nd (AList.delete (active w) (entries s)))\<rparr>"
    define sf where "sf = (if compress w then se\<lparr>spawned := spawned se @ [bn]\<rparr> else se)"
    have r: "os_Rename (active w) bn sd = (True, se)"
      using rd Some ld ed by (simp add: os_Rename_quiet se_def)
    have ff: "faults sf OpCreate = Some c # fs" using fd by (simp add: sf_def se_def)
    have "openNew w s = (w, sf\<lparr>faults := (faults sf)(OpCreate := fs)\<rparr>, Some ErrOpenNew)"
      using m t j(2) r cd os_Create_fails[OF ff]
      by (simp add: openNew_def openNew_create_def active_def[symmetric] bn_def[symmetric]
          sf_def[symmetric])
    then show ?thesis by blast
  qed
qed

lemma rotate_openNew_fails:
  "faults s OpClose = [] \<Longrightarrow> openNew (w\<lparr>cur_file := None\<rparr>) s = (w1, s1, Some e) \<Longrightarrow>
   rotate_w w s = (w1, s1, Some e)"
  by (simp add: rotate_w_def close_quiet)

lemma Write_rotate_fails:
  "cur_file w \<noteq> None \<Longrightarrow> int (length p) \<le> maxSize w \<Longrightarrow>
   maxSize w < wrap64 (cur_size w + int (length p)) \<Longrightarrow>
   rotate_w w s = (w1, s1, Some e) \<Longrightarrow> Write w s p = (w1, s1, 0, Some e)"
  by (cases "cur_file w") (simp_all add: Write_def Let_def)

lemma openExistingOrNew_rotates:
  assumes m: "mill w s = (None, sm)" and a: "lookup s (active w) = Some nd"
    and q: "faults s OpStat = []"
    and x: "maxSize w \<le> wrap64 (int (length (content nd)) + int n)"
  shows "openExistingOrNew w s n = rotate_w w sm"
proof -
  from mill_frame[OF m] q have qm: "faults sm OpStat = []" by simp
  from mill_active[OF m] a have am: "lookup sm (active w) = Some nd" by simp
  have st: "os_Stat (Base (filename w)) sm = (Found nd, sm)"
    using qm am by (simp add: os_Stat_quiet active_def)
  with m x show ?thesis by (simp add: openExistingOrNew_def)
qed

lemma Write_rotate_then_write:
  "cur_file w \<noteq> None \<Longrightarrow> \<not> maxSize w < int (length p) \<Longrightarrow>
   maxSize w < wrap64 (cur_size w + int (length p)) \<Longrightarrow>
   rotate_w w s = (w2, s2, None) \<Longrightarrow> cur_file w2 \<noteq> None \<Longrightarrow> maxSize w2 = maxSize w \<Longrightarrow>
   \<not> maxSize w < wrap64 (cur_size w2 + int (length p)) \<Longrightarrow> Write w s p = Write w2 s2 p"
  by (cases "cur_file w"; cases "cur_file w2") (simp_all add: Write_def Let_def)

section \<open>Evaluation\<close>

lemmas os_defs = os_Stat_def os_MkdirAll_def os_Rename_def os_OpenAppend_def os_Create_def
  os_ReadDir_def os_Remove_def os_Close_def file_Write_def fault_def lookup_def entries_def

lemmas writer_defs = Write_def openExistingOrNew_def rotate_w_def openNew_def
  openNew_create_def backupName_def backupName_loop.simps mill_def oldLogFiles_def close_def
  prefixAndExt_def timeFromName_def HasPrefix_def HasSuffix_def backupEntry_def active_def
  wrap64_def

lemmas time_defs = Format_def civil_def yearOf.simps monthLengths_def isLeap_def
  daysInYear_def nsPerDay_def pad_def itoa.simps digit_def

lemmas ex_defs = ex_writer_def ex_world_def reg_def

lemma Base_ex [simp]: "Base ''logs/app.log'' = ''app.log''"
  by (simp add: Base_def)

lemma Ext_ex [simp]: "Ext ''app.log'' = ''.log''"
  by (simp add: Ext_def)

lemma Format_noon: "Format noon = ''2024-01-15''"
  by (simp add: time_defs noon_def)

lemma Writes_example:
  "Writes ex_writer (ex_world []) [(noon, ''abcde''), (noon, ''fghij''), (noon, ''k'')]
   = [(ex_writer\<lparr>cur_file := Some ''app.log'', cur_size := 5\<rparr>,
       ex_world [(''app.log'', reg ''abcde'')], 5, None),
      (ex_writer\<lparr>cur_file := Some ''app.log'', cur_size := 10\<rparr>,
       ex_world [(''app.log'', reg ''abcdefghij'')], 5, None),
      (ex_writer\<lparr>cur_file := Some ''app.log'', cur_size := 1\<rparr>,
       ex_world [(''app-2024-01-15-1.log'', reg ''abcdefghij''), (''app.log'', reg ''k'')],
       1, None)]"
  by (simp add: ex_defs writer_defs os_defs Format_noon itoa.simps digit_def)

lemma reopen_after_failure:
  "openExistingOrNew (ex_writer\<lparr>cur_file := None, cur_size := 10\<rparr>)
     (ex_world [(''app.log'', reg ''abcdefghij'')]) (length ''k'')
   = (ex_writer\<lparr>cur_file := Some ''app.log'', cur_size := 0\<rparr>,
      ex_world [(''app-2024-01-15-1.log'', reg ''abcdefghij''), (''app.log'', reg [])], None)"
  by (simp add: ex_defs writer_defs os_defs Format_noon itoa.simps digit_def)

lemma Writes_example_open:
  "Writes (ex_writer\<lparr>cur_file := Some ''app.log''\<rparr>) (ex_world [(''app.log'', reg [])])
     [(noon, ''abcde''), (noon, ''fghij''), (noon, ''k'')]
   = [(ex_writer\<lparr>cur_file := Some ''app.log'', cur_size := 5\<rparr>,
       ex_world [(''app.log'', reg ''abcde'')], 5, None),
      (ex_writer\<lparr>cur_file := Some ''app.log'', cur_size := 10\<rparr>,
       ex_world [(''app.log'', reg ''abcdefghij'')], 5, None),
      (ex_writer\<lparr>cur_file := Some ''app.log'', cur_size := 1\<rparr>,
       ex_world [(''app-2024-01-15-1.log'', reg ''abcdefghij''), (''app.log'', reg ''k'')],
       1, None)]"
  by (simp add: ex_defs writer_defs os_defs Format_noon itoa.simps digit_def Let_def)

lemma Format_afternoon:
  "Format (noon + 3600000000000) = ''2024-01-15''" "Format (noon + 7200000000000) = ''2024-01-15''"
  by (simp_all add: time_defs noon_def)

lemma Writes_two_rotations:
  "Writes ex_writer (ex_world [])
     [(noon, ''abcde''), (noon, ''fghij''), (noon + 3600000000000, ''klmnopqrst''),
      (noon + 7200000000000, ''u'')] ! 3
   = (ex_writer\<lparr>cur_file := Some ''app.log'', cur_size := 1\<rparr>,
      (ex_world [(''app-2024-01-15-1.log'', reg ''abcdefghij''),
                 (''app-2024-01-15-2.log'', reg ''klmnopqrst''), (''app.log'', reg ''u'')])
        \<lparr>clock := noon + 7200000000000\<rparr>,
      1, None)"
  by (simp add: ex_defs writer_defs os_defs Format_noon Format_afternoon itoa.simps digit_def
      Let_def)

section \<open>Oversized writes\<close>

text \<open>
  C6. A write longer than \<open>maxSize\<close> fails with the write-too-long error and count 0,
  and neither the writer nor the world changes: the handle, the size, the directory and
  its files stay as they were, whether or not a file is open, and no system call is made.
\<close>

theorem Write_oversized_rejected:
  "maxSize w < int (length p) \<Longrightarrow>
   Write w s p = (w, s, 0, Some (ErrWriteTooLong (int (length p)) (maxSize w)))"
  by (simp add: Write_def)

theorem Write_oversized_rejected_witness:
  "maxSize ex_writer < int (length ''0123456789A'')
   \<and> cur_file ex_writer = None
   \<and> Write ex_writer (ex_world []) ''0123456789A''
       = (ex_writer, ex_world [], 0, Some (ErrWriteTooLong 11 10))"
  using Write_oversized_rejected [of ex_writer "''0123456789A''" "ex_world []"]
  by (simp add: ex_writer_def)

section \<open>The size invariant\<close>

text \<open>
  C4. Size invariant. A writer that has no open handle performs any sequence of writes,
  each at most \<open>maxSize\<close> bytes long, at any times and under any schedule of
  failing system calls. After every write of the sequence that returns no error, the
  active file exists, is a regular file, its length is the writer's size field, that
  size is at most \<open>maxSize\<close>, and the handle is open on the active file.
  The 64-bit additions of the writer are kept away from the wrap-around by two bounds:
  \<open>maxSize\<close> is below \<open>2^62\<close>, and so is the length of the active file
  found at the start, if there is one.
\<close>

theorem Writes_size_invariant:
  assumes "cur_file w = None"
    and "maxSize w < 2 ^ 62"
    and "\<forall>nd. lookup s (active w) = Some nd \<longrightarrow> int (length (content nd)) < 2 ^ 62"
    and "\<forall>tp \<in> set ps. int (length (snd tp)) \<le> maxSize w"
    and "(w1, s1, n, None) \<in> set (Writes w s ps)"
  shows "\<exists>nd. lookup s1 (active w) = Some nd \<and> \<not> isdir nd
           \<and> cur_size w1 = int (length (content nd)) \<and> cur_size w1 \<le> maxSize w
           \<and> cur_file w1 = Some (active w)"
proof -
  from assms(3) have "small w s" by (simp add: small_def split: option.splits)
  with assms(1,2) have "sound w s" by (simp add: sound_closed)
  from Writes_sound[OF this assms(4,5)]
  have o: "opened w1 s1" and f: "cur_file w1 = Some (active w)"
    and a: "active w1 = active w" and m: "maxSize w1 = maxSize w"
    by (simp_all add: active_def)
  from o a m f show ?thesis
    by (auto simp add: opened_def split: option.splits)
qed

text \<open>
  The theorem at the three writes of the example: after the third one the active file
  holds one byte and the size field is 1.
\<close>

theorem Writes_size_invariant_witness:
  "\<exists>nd. lookup (ex_world [(''app-2024-01-15-1.log'', reg ''abcdefghij''), (''app.log'', reg ''k'')])
          (active ex_writer) = Some nd \<and> \<not> isdir nd
      \<and> cur_size (ex_writer\<lparr>cur_file := Some ''app.log'', cur_size := 1\<rparr>) = int (length (content nd))
      \<and> cur_size (ex_writer\<lparr>cur_file := Some ''app.log'', cur_size := 1\<rparr>) \<le> maxSize ex_writer
      \<and> cur_file (ex_writer\<lparr>cur_file := Some ''app.log'', cur_size := 1\<rparr>) = Some (active ex_writer)"
  using Writes_size_invariant [of ex_writer "ex_world []"
      "[(noon, ''abcde''), (noon, ''fghij''), (noon, ''k'')]"
      "ex_writer\<lparr>cur_file := Some ''app.log'', cur_size := 1\<rparr>"
      "ex_world [(''app-2024-01-15-1.log'', reg ''abcdefghij''), (''app.log'', reg ''k'')]" 1]
  by (simp add: Writes_example) (simp add: ex_defs lookup_def entries_def active_def)

section \<open>Rotation at the threshold\<close>

text \<open>
  C5. Rotation triggers exactly once per threshold crossing. The writer has its handle
  on the existing live file, the write is at most \<open>maxSize\<close> bytes long and the
  recorded size plus its length exceeds \<open>maxSize\<close>; no system call fails, and the
  extension of the file name has no dash (so that the sweep cannot panic). Then
  \<^verbatim>\<open>Write\<close> returns the full count and no error, and afterwards: one name that
  was free before, the backup name with index \<open>j\<close> of the day, holds the old file;
  the live file holds exactly the bytes written, and the recorded size is their number;
  every other name of the directory has the entry it had or none (the sweep may have
  removed it), so the backup is the only new entry. The sizes are below \<open>2^62\<close>,
  away from the 64-bit wrap-around.
\<close>

theorem rotation_once_per_crossing:
  assumes h: "cur_file w = Some (active w)"
    and a: "lookup s (active w) = Some nd"
    and l: "int (length p) \<le> maxSize w"
    and x: "maxSize w < cur_size w + int (length p)"
    and b: "cur_size w \<le> maxSize w" "maxSize w < 2 ^ 62"
    and d: "CHR ''-'' \<notin> set (Ext (active w))"
    and q: "faults s OpClose = []" "faults s OpMkdirAll = []" "faults s OpStat = []"
      "faults s OpRename = []" "faults s OpCreate = []" "faults s OpWrite = []"
  shows "\<exists>j s1. 1 \<le> j
     \<and> Write w s p
         = (w\<lparr>cur_file := Some (active w), cur_size := int (length p)\<rparr>, s1, length p, None)
     \<and> lookup s (candidate (filename w) (clock s) j) = None
     \<and> lookup s1 (candidate (filename w) (clock s) j) = Some nd
     \<and> lookup s1 (active w) = Some \<lparr>content = p, perm = perm nd - (perm nd AND umask s), isdir = False\<rparr>
     \<and> (\<forall>x. x \<noteq> candidate (filename w) (clock s) j \<longrightarrow> x \<noteq> active w \<longrightarrow>
           lookup s1 x = lookup s x \<or> lookup s1 x = None)"
proof -
  obtain j s2 r where j: "1 \<le> j"
    "rotate_w w s = (w\<lparr>cur_file := Some (active w), cur_size := 0\<rparr>, s2, r)"
    "r = None \<or> r = Some PanicSliceBounds"
    "CHR ''-'' \<notin> set (Ext (active w)) \<longrightarrow> r = None"
    "lookup s (candidate (filename w) (clock s) j) = None"
    "\<forall>k. 1 \<le> k \<longrightarrow> k < j \<longrightarrow> lookup s (candidate (filename w) (clock s) k) \<noteq> None"
    "lookup s2 (candidate (filename w) (clock s) j) = Some nd"
    "lookup s2 (active w)
       = Some \<lparr>content = [], perm = perm nd - (perm nd AND umask s), isdir = False\<rparr>"
    "\<forall>x. x \<noteq> candidate (filename w) (clock s) j \<longrightarrow> x \<noteq> active w \<longrightarrow>
        lookup s2 x = lookup s x \<or> lookup s2 x = None"
    "clock s2 = clock s" "faults s2 OpWrite = faults s OpWrite"
    "spawned s2 = (if compress w then spawned s @ [candidate (filename w) (clock s) j]
                   else spawned s)"
    "umask s2 = umask s"
    by (rule rotate_quiet[OF q(1-5) a])
  from j(4) d have rn: "r = None" by simp
  have b63: "maxSize w < 2 ^ 63" using b(2) by simp
  from j(11) q(6) have f2: "faults s2 OpWrite = []" by simp
  obtain s1 where s1:
    "Write (w\<lparr>cur_file := Some (active w), cur_size := 0\<rparr>) s2 p
       = (w\<lparr>cur_file := Some (active w), cur_size := int (length p)\<rparr>, s1, length p, None)"
    "lookup s1 = (lookup s2)(active w \<mapsto> \<lparr>content = p, perm = perm nd - (perm nd AND umask s), isdir = False\<rparr>)"
    "clock s1 = clock s2" "faults s1 = faults s2" "spawned s1 = spawned s2"
    by (rule Write_on_fresh[OF refl l b63 f2 j(8)])
  have w1: "wrap64 (cur_size w + int (length p)) = cur_size w + int (length p)"
    using x l b by (intro wrap64_id) simp_all
  have w2: "wrap64 (int (length p)) = int (length p)" using l b by (intro wrap64_id) simp_all
  have "Write w s p = Write (w\<lparr>cur_file := Some (active w), cur_size := 0\<rparr>) s2 p"
    using h l x w1 w2 j(2) rn by (intro Write_rotate_then_write) simp_all
  with s1(1) have W: "Write w s p
      = (w\<lparr>cur_file := Some (active w), cur_size := int (length p)\<rparr>, s1, length p, None)"
    by simp
  from a j(5) have ne: "candidate (filename w) (clock s) j \<noteq> active w" by auto
  from s1(2) j(7) ne have B: "lookup s1 (candidate (filename w) (clock s) j) = Some nd" by simp
  from s1(2) have A: "lookup s1 (active w) = Some \<lparr>content = p, perm = perm nd - (perm nd AND umask s), isdir = False\<rparr>"
    by simp
  from s1(2) j(9) have O: "\<forall>x. x \<noteq> candidate (filename w) (clock s) j \<longrightarrow> x \<noteq> active w \<longrightarrow>
           lookup s1 x = lookup s x \<or> lookup s1 x = None" by simp
  show ?thesis by (intro exI[of _ j] exI[of _ s1] conjI j(1) W j(5) B A O)
qed

text \<open>
  The theorem at the third write of the example, and the example itself: with
  \<open>maxSize = 10\<close> and an open handle, \<^verbatim>\<open>"abcde"\<close> and \<^verbatim>\<open>"fghij"\<close> land in the
  live file, and \<^verbatim>\<open>"k"\<close> rotates it: the backup holds \<^verbatim>\<open>"abcdefghij"\<close> and
  the live file \<^verbatim>\<open>"k"\<close>.
\<close>

theorem rotation_once_per_crossing_witness:
  "(\<exists>j s1. Write (ex_writer\<lparr>cur_file := Some ''app.log'', cur_size := 10\<rparr>)
          (ex_world [(''app.log'', reg ''abcdefghij'')]) ''k''
        = (ex_writer\<lparr>cur_file := Some ''app.log'', cur_size := 1\<rparr>, s1, 1, None)
     \<and> lookup s1 (''app-2024-01-15-'' @ itoa j @ ''.log'') = Some (reg ''abcdefghij'')
     \<and> lookup s1 ''app.log'' = Some (reg ''k''))
   \<and> Writes (ex_writer\<lparr>cur_file := Some ''app.log''\<rparr>) (ex_world [(''app.log'', reg [])])
       [(noon, ''abcde''), (noon, ''fghij''), (noon, ''k'')]
     = [(ex_writer\<lparr>cur_file := Some ''app.log'', cur_size := 5\<rparr>,
         ex_world [(''app.log'', reg ''abcde'')], 5, None),
        (ex_writer\<lparr>cur_file := Some ''app.log'', cur_size := 10\<rparr>,
         ex_world [(''app.log'', reg ''abcdefghij'')], 5, None),
        (ex_writer\<lparr>cur_file := Some ''app.log'', cur_size := 1\<rparr>,
         ex_world [(''app-2024-01-15-1.log'', reg ''abcdefghij''), (''app.log'', reg ''k'')],
         1, None)]"
  (is "?A \<and> ?B")
proof
  let ?w = "ex_writer\<lparr>cur_file := Some ''app.log'', cur_size := 10\<rparr>"
  let ?s = "ex_world [(''app.log'', reg ''abcdefghij'')]"
  have q: "faults ?s OpClose = []" "faults ?s OpMkdirAll = []" "faults ?s OpStat = []"
    "faults ?s OpRename = []" "faults ?s OpCreate = []" "faults ?s OpWrite = []"
    by (simp_all add: ex_world_def)
  have h: "cur_file ?w = Some (active ?w)" by (simp add: ex_writer_def active_def)
  have a: "lookup ?s (active ?w) = Some (reg ''abcdefghij'')"
    by (simp add: ex_defs active_def lookup_def entries_def)
  have l: "int (length ''k'') \<le> maxSize ?w" "maxSize ?w < cur_size ?w + int (length ''k'')"
    "cur_size ?w \<le> maxSize ?w" "maxSize ?w < 2 ^ 62"
    by (simp_all add: ex_writer_def)
  have d: "CHR ''-'' \<notin> set (Ext (active ?w))" by (simp add: ex_writer_def active_def)
  have c: "candidate (filename ?w) (clock ?s) k = ''app-2024-01-15-'' @ itoa k @ ''.log''" for k
    by (simp add: candidate_def backupEntry_def Format_noon ex_defs)
  from rotation_once_per_crossing[OF h a l d q] obtain j s1 where
    W: "Write ?w ?s ''k''
         = (?w\<lparr>cur_file := Some (active ?w), cur_size := int (length ''k'')\<rparr>, s1, length ''k'', None)"
    and B: "lookup s1 (candidate (filename ?w) (clock ?s) j) = Some (reg ''abcdefghij'')"
    and A: "lookup s1 (active ?w)
         = Some \<lparr>content = ''k'', perm = perm (reg ''abcdefghij'') - (perm (reg ''abcdefghij'') AND umask ?s),
                 isdir = False\<rparr>"
    by (elim exE conjE)
  from W have "Write ?w ?s ''k''
      = (ex_writer\<lparr>cur_file := Some ''app.log'', cur_size := 1\<rparr>, s1, 1, None)"
    by (simp add: ex_writer_def active_def)
  moreover from B have "lookup s1 (''app-2024-01-15-'' @ itoa j @ ''.log'') = Some (reg ''abcdefghij'')"
    unfolding c .
  moreover from A have "lookup s1 ''app.log'' = Some (reg ''k'')"
    by (simp add: ex_defs active_def)
  ultimately show ?A by blast
  show ?B by (rule Writes_example_open)
qed

section \<open>The name of the backup\<close>

text \<open>
  C7. Backup naming. A rotation of the existing live file in which no system call fails
  renames it to \<open>candidate (filename w) (clock s) j\<close>, that is
  \<open>prefix-date-j ext\<close> with \<open>prefix @ ext\<close> the base name of the log file,
  \<open>ext\<close> its extension (from the last dot on) and the date the one of the clock at
  the rotation. The index \<open>j\<close> is positive, the name with index \<open>j\<close> was free
  and every name with a smaller positive index was taken; different indices give
  different names. Hence the index is 1 when the name with index 1 is free, and 2 when
  that one is taken and the name with index 2 is free.
\<close>

theorem rotation_backup_name:
  assumes q: "faults s OpClose = []" "faults s OpMkdirAll = []" "faults s OpStat = []"
      "faults s OpRename = []" "faults s OpCreate = []"
    and a: "lookup s (active w) = Some nd"
  shows "\<exists>j s1 r. 1 \<le> j
     \<and> rotate_w w s = (w\<lparr>cur_file := Some (active w), cur_size := 0\<rparr>, s1, r)
     \<and> lookup s (candidate (filename w) (clock s) j) = None
     \<and> (\<forall>k. 1 \<le> k \<longrightarrow> k < j \<longrightarrow> lookup s (candidate (filename w) (clock s) k) \<noteq> None)
     \<and> lookup s1 (candidate (filename w) (clock s) j) = Some nd
     \<and> (\<forall>k. candidate (filename w) (clock s) k = candidate (filename w) (clock s) j \<longrightarrow> k = j)
     \<and> (lookup s (candidate (filename w) (clock s) 1) = None \<longrightarrow> j = 1)
     \<and> (lookup s (candidate (filename w) (clock s) 1) \<noteq> None \<longrightarrow>
          lookup s (candidate (filename w) (clock s) 2) = None \<longrightarrow> j = 2)
     \<and> (\<exists>prefix ext. prefix @ ext = active w \<and> ext = Ext (active w)
          \<and> (\<forall>k. candidate (filename w) (clock s) k
                 = prefix @ ''-'' @ Format (clock s) @ ''-'' @ itoa k @ ext))"
proof -
  obtain j s1 r where j: "1 \<le> j"
    "rotate_w w s = (w\<lparr>cur_file := Some (active w), cur_size := 0\<rparr>, s1, r)"
    "r = None \<or> r = Some PanicSliceBounds"
    "CHR ''-'' \<notin> set (Ext (active w)) \<longrightarrow> r = None"
    "lookup s (candidate (filename w) (clock s) j) = None"
    "\<forall>k. 1 \<le> k \<longrightarrow> k < j \<longrightarrow> lookup s (candidate (filename w) (clock s) k) \<noteq> None"
    "lookup s1 (candidate (filename w) (clock s) j) = Some nd"
    "lookup s1 (active w)
       = Some \<lparr>content = [], perm = perm nd - (perm nd AND umask s), isdir = False\<rparr>"
    "\<forall>x. x \<noteq> candidate (filename w) (clock s) j \<longrightarrow> x \<noteq> active w \<longrightarrow>
        lookup s1 x = lookup s x \<or> lookup s1 x = None"
    "clock s1 = clock s" "faults s1 OpWrite = faults s OpWrite"
    "spawned s1 = (if compress w then spawned s @ [candidate (filename w) (clock s) j]
                   else spawned s)"
    "umask s1 = umask s"
    by (rule rotate_quiet[OF q(1-5) a])
  have inj: "\<forall>k. candidate (filename w) (clock s) k = candidate (filename w) (clock s) j \<longrightarrow> k = j"
    using candidate_inj by blast
  have one: "j = 1" if "lookup s (candidate (filename w) (clock s) 1) = None"
  proof (rule ccontr)
    assume "j \<noteq> 1"
    with j(1) have "1 < j" by simp
    then have "lookup s (candidate (filename w) (clock s) 1) \<noteq> None"
      by (intro j(6)[rule_format]) simp_all
    with that show False by simp
  qed
  have two: "j = 2" if u: "lookup s (candidate (filename w) (clock s) 1) \<noteq> None"
    and f: "lookup s (candidate (filename w) (clock s) 2) = None"
  proof (rule ccontr)
    assume n2: "j \<noteq> 2"
    from u j(5) have "j \<noteq> 1" by auto
    with n2 j(1) have "2 < j" by simp
    then have "lookup s (candidate (filename w) (clock s) 2) \<noteq> None"
      by (intro j(6)[rule_format]) simp_all
    with f show False by simp
  qed
  have shape: "\<exists>prefix ext. prefix @ ext = active w \<and> ext = Ext (active w)
          \<and> (\<forall>k. candidate (filename w) (clock s) k
                 = prefix @ ''-'' @ Format (clock s) @ ''-'' @ itoa k @ ext)"
    by (intro exI[of _ "take (length (active w) - length (Ext (active w))) (active w)"]
          exI[of _ "Ext (active w)"])
       (simp add: Ext_split candidate_def Let_def backupEntry_def active_def)
  from one have o: "lookup s (candidate (filename w) (clock s) 1) = None \<longrightarrow> j = 1"
    by simp
  from two have t: "lookup s (candidate (filename w) (clock s) 1) \<noteq> None \<longrightarrow>
          lookup s (candidate (filename w) (clock s) 2) = None \<longrightarrow> j = 2"
    by simp
  show ?thesis
    by (intro exI[of _ j] exI[of _ s1] exI[of _ r] conjI j(1,2,5,6,7) inj o t shape)
qed

text \<open>
  The theorem at a directory that already holds the backup with index 1 of the day, and
  a run of four writes with two rotations on the same day: the backups get the indices
  1 and 2.
\<close>

theorem rotation_backup_name_witness:
  "(\<exists>s1 r. rotate_w (ex_writer\<lparr>cur_file := Some ''app.log'', cur_size := 10\<rparr>)
          (ex_world [(''app-2024-01-15-1.log'', reg ''abcdefghij''), (''app.log'', reg ''klmnopqrst'')])
        = (ex_writer\<lparr>cur_file := Some ''app.log'', cur_size := 0\<rparr>, s1, r)
     \<and> lookup s1 ''app-2024-01-15-2.log'' = Some (reg ''klmnopqrst''))
   \<and> Writes ex_writer (ex_world [])
       [(noon, ''abcde''), (noon, ''fghij''), (noon + 3600000000000, ''klmnopqrst''),
        (noon + 7200000000000, ''u'')] ! 3
     = (ex_writer\<lparr>cur_file := Some ''app.log'', cur_size := 1\<rparr>,
        (ex_world [(''app-2024-01-15-1.log'', reg ''abcdefghij''),
                   (''app-2024-01-15-2.log'', reg ''klmnopqrst''), (''app.log'', reg ''u'')])
          \<lparr>clock := noon + 7200000000000\<rparr>,
        1, None)"
  (is "?A \<and> ?B")
proof
  let ?w = "ex_writer\<lparr>cur_file := Some ''app.log'', cur_size := 10\<rparr>"
  let ?s = "ex_world [(''app-2024-01-15-1.log'', reg ''abcdefghij''), (''app.log'', reg ''klmnopqrst'')]"
  have q: "faults ?s OpClose = []" "faults ?s OpMkdirAll = []" "faults ?s OpStat = []"
    "faults ?s OpRename = []" "faults ?s OpCreate = []"
    by (simp_all add: ex_world_def)
  have a: "lookup ?s (active ?w) = Some (reg ''klmnopqrst'')"
    by (simp add: ex_defs active_def lookup_def entries_def)
  have c: "candidate (filename ?w) (clock ?s) k = ''app-2024-01-15-'' @ itoa k @ ''.log''" for k
    by (simp add: candidate_def backupEntry_def Format_noon ex_defs)
  have i: "itoa 1 = ''1''" "itoa 2 = ''2''" by (simp_all add: itoa.simps digit_def)
  have u: "lookup ?s (candidate (filename ?w) (clock ?s) 1) \<noteq> None"
    and f: "lookup ?s (candidate (filename ?w) (clock ?s) 2) = None"
    unfolding c i by (simp_all add: ex_world_def lookup_def entries_def)
  from rotation_backup_name[OF q a] obtain j s1 r where
    R: "rotate_w ?w ?s = (?w\<lparr>cur_file := Some (active ?w), cur_size := 0\<rparr>, s1, r)"
    and B: "lookup s1 (candidate (filename ?w) (clock ?s) j) = Some (reg ''klmnopqrst'')"
    and t: "lookup ?s (candidate (filename ?w) (clock ?s) 1) \<noteq> None \<longrightarrow>
          lookup ?s (candidate (filename ?w) (clock ?s) 2) = None \<longrightarrow> j = 2"
    by (elim exE conjE)
  from t u f have "j = 2" by blast
  with B have "lookup s1 ''app-2024-01-15-2.log'' = Some (reg ''klmnopqrst'')"
    unfolding c by (simp add: i)
  moreover from R have "rotate_w ?w ?s
      = (ex_writer\<lparr>cur_file := Some ''app.log'', cur_size := 0\<rparr>, s1, r)"
    by (simp add: ex_writer_def active_def)
  ultimately show ?A by blast
  show ?B by (rule Writes_two_rotations)
qed

section \<open>Failed rotations\<close>

text \<open>
  C9. Rotation failure policy. A write of at most \<open>maxSize\<close> bytes rotates the
  existing live file, either from \<^verbatim>\<open>openExistingOrNew\<close> (no handle, the file's
  size plus the write reaches \<open>maxSize\<close>) or from \<^verbatim>\<open>Write\<close> itself (open
  handle, the recorded size plus the write exceeds \<open>maxSize\<close>); closing the handle
  and \<^verbatim>\<open>os.Stat\<close> do not fail. Then the first step of the rotation that fails
  decides the result of \<^verbatim>\<open>Write\<close>: a failing \<^verbatim>\<open>os.MkdirAll\<close>, a failing
  \<^verbatim>\<open>os.Rename\<close> of the live file, or a failing creation of the new file each make
  \<^verbatim>\<open>Write\<close> return count 0 and the error of that step, with the writer left as it
  was but without a handle. The next write on that writer, in any state of the world,
  runs \<^verbatim>\<open>openExistingOrNew\<close> again: it returns that call's error with count 0 when
  it fails, and is otherwise the write on the writer that the call opened.
\<close>

theorem rotation_failure_policy:
  assumes l: "int (length p) \<le> maxSize w"
    and t: "(cur_file w = None \<and> fst (mill w s) = None
              \<and> maxSize w \<le> wrap64 (int (length (content nd)) + int (length p)))
          \<or> (cur_file w \<noteq> None \<and> maxSize w < wrap64 (cur_size w + int (length p)))"
    and a: "lookup s (active w) = Some nd"
    and q: "faults s OpClose = []" "faults s OpStat = []"
  shows "(faults s OpMkdirAll = Some c # fs \<longrightarrow>
            (\<exists>s1. Write w s p = (w\<lparr>cur_file := None\<rparr>, s1, 0, Some ErrMkdir)))
    \<and> (faults s OpMkdirAll = [] \<and> faults s OpRename = Some c # fs \<longrightarrow>
            (\<exists>s1. Write w s p = (w\<lparr>cur_file := None\<rparr>, s1, 0, Some ErrRename)))
    \<and> (faults s OpMkdirAll = [] \<and> faults s OpRename = [] \<and> faults s OpCreate = Some c # fs \<longrightarrow>
            (\<exists>s1. Write w s p = (w\<lparr>cur_file := None\<rparr>, s1, 0, Some ErrOpenNew)))
    \<and> (\<forall>q s2 w2 s3 r2. int (length q) \<le> maxSize w \<longrightarrow>
          openExistingOrNew (w\<lparr>cur_file := None\<rparr>) s2 (length q) = (w2, s3, r2) \<longrightarrow>
          Write (w\<lparr>cur_file := None\<rparr>) s2 q
            = (case r2 of Some e2 \<Rightarrow> (w2, s3, 0, Some e2) | None \<Rightarrow> Write w2 s3 q))"
proof -
  let ?w0 = "w\<lparr>cur_file := None\<rparr>"
  define sm where "sm = (if cur_file w = None then snd (mill w s) else s)"
  have ms: "mill w s = (fst (mill w s), snd (mill w s))" by simp
  have fr: "faults sm k = faults s k" if "k \<noteq> OpReadDir" "k \<noteq> OpRemove" for k
    using mill_frame[OF ms] that by (simp add: sm_def)
  have am: "lookup sm (active ?w0) = Some nd" using mill_active[OF ms] a by (simp add: sm_def)
  have qm: "faults sm OpClose = []" "faults sm OpStat = []" using q by (simp_all add: fr)
  have W: "Write w s p = (w1, s1, 0, Some e)" if r: "rotate_w w sm = (w1, s1, Some e)" for w1 s1 e
  proof (cases "cur_file w")
    case None
    with t have m: "mill w s = (None, sm)"
      and x: "maxSize w \<le> wrap64 (int (length (content nd)) + int (length p))"
      by (simp_all add: sm_def prod_eq_iff)
    from openExistingOrNew_rotates[OF m a q(2) x] r
    have "openExistingOrNew w s (length p) = (w1, s1, Some e)" by simp
    from Write_open_failed[OF None _ this] l show ?thesis by simp
  next
    case (Some h)
    with t have x: "maxSize w < wrap64 (cur_size w + int (length p))" and e: "sm = s"
      by (simp_all add: sm_def)
    from Some have "cur_file w \<noteq> None" by simp
    from Write_rotate_fails[OF this l x r[unfolded e]] show ?thesis .
  qed
  have R: "\<exists>s1. Write w s p = (?w0, s1, 0, Some e)"
    if "\<exists>s1. openNew ?w0 sm = (?w0, s1, Some e)" for e
  proof -
    from that obtain s1 where "openNew ?w0 sm = (?w0, s1, Some e)" by blast
    from W[OF rotate_openNew_fails[OF qm(1) this]] show ?thesis by blast
  qed
  have M: "faults s OpMkdirAll = Some c # fs \<longrightarrow> (\<exists>s1. Write w s p = (?w0, s1, 0, Some ErrMkdir))"
  proof
    assume "faults s OpMkdirAll = Some c # fs"
    then have "faults sm OpMkdirAll = Some c # fs" by (simp add: fr)
    from openNew_mkdir_fails[OF this, of ?w0] show "\<exists>s1. Write w s p = (?w0, s1, 0, Some ErrMkdir)"
      by (intro R) blast
  qed
  have N: "faults s OpMkdirAll = [] \<and> faults s OpRename = Some c # fs \<longrightarrow>
      (\<exists>s1. Write w s p = (?w0, s1, 0, Some ErrRename))"
  proof
    assume "faults s OpMkdirAll = [] \<and> faults s OpRename = Some c # fs"
    then have "faults sm OpMkdirAll = []" "faults sm OpRename = Some c # fs" by (simp_all add: fr)
    from openNew_rename_fails[OF this(1) qm(2) am this(2)]
    show "\<exists>s1. Write w s p = (?w0, s1, 0, Some ErrRename)" by (rule R)
  qed
  have C: "faults s OpMkdirAll = [] \<and> faults s OpRename = [] \<and> faults s OpCreate = Some c # fs \<longrightarrow>
      (\<exists>s1. Write w s p = (?w0, s1, 0, Some ErrOpenNew))"
  proof
    assume "faults s OpMkdirAll = [] \<and> faults s OpRename = [] \<and> faults s OpCreate = Some c # fs"
    then have "faults sm OpMkdirAll = []" "faults sm OpRename = []"
      "faults sm OpCreate = Some c # fs" by (simp_all add: fr)
    from openNew_create_fails[OF this(1) qm(2) this(2,3)]
    show "\<exists>s1. Write w s p = (?w0, s1, 0, Some ErrOpenNew)" by (rule R)
  qed
  have n: "cur_file ?w0 = None" and m: "maxSize ?w0 = maxSize w" by simp_all
  have X: "Write ?w0 s2 q = (case r2 of Some e2 \<Rightarrow> (w2, s3, 0, Some e2) | None \<Rightarrow> Write w2 s3 q)"
    if q: "int (length q) \<le> maxSize w"
      and o: "openExistingOrNew ?w0 s2 (length q) = (w2, s3, r2)" for q s2 w2 s3 r2
  proof (cases r2)
    case (Some e2)
    with Write_open_failed[OF n _ o[unfolded Some]] q m show ?thesis by simp
  next
    case None
    from openExistingOrNew_opened[OF o[unfolded None] n]
    have "cur_file w2 \<noteq> None" "maxSize w2 = maxSize ?w0" by simp_all
    with Write_open_then_write[OF n _ o[unfolded None]] q m None show ?thesis by simp
  qed
  from M N C X show ?thesis by blast
qed

text \<open>
  The theorem at a full file of ten bytes and a write of one byte, with the directory
  creation failing, with the rename failing, and (from a writer without a handle) with
  the creation of the new file failing; and the next write after the failed rename,
  which reopens and rotates.
\<close>

theorem rotation_failure_policy_witness:
  "(\<exists>s1. Write (ex_writer\<lparr>cur_file := Some ''app.log'', cur_size := 10\<rparr>)
          ((ex_world [(''app.log'', reg ''abcdefghij'')])
             \<lparr>faults := (\<lambda>k. [])(OpMkdirAll := [Some 0])\<rparr>) ''k''
        = (ex_writer\<lparr>cur_file := None, cur_size := 10\<rparr>, s1, 0, Some ErrMkdir))
   \<and> (\<exists>s1. Write (ex_writer\<lparr>cur_file := Some ''app.log'', cur_size := 10\<rparr>)
          ((ex_world [(''app.log'', reg ''abcdefghij'')])
             \<lparr>faults := (\<lambda>k. [])(OpRename := [Some 0])\<rparr>) ''k''
        = (ex_writer\<lparr>cur_file := None, cur_size := 10\<rparr>, s1, 0, Some ErrRename))
   \<and> (\<exists>s1. Write ex_writer
          ((ex_world [(''app.log'', reg ''abcdefghij'')])
             \<lparr>faults := (\<lambda>k. [])(OpCreate := [Some 0])\<rparr>) ''k''
        = (ex_writer, s1, 0, Some ErrOpenNew))
   \<and> Write (ex_writer\<lparr>cur_file := None, cur_size := 10\<rparr>)
        (ex_world [(''app.log'', reg ''abcdefghij'')]) ''k''
     = Write (ex_writer\<lparr>cur_file := Some ''app.log'', cur_size := 0\<rparr>)
        (ex_world [(''app-2024-01-15-1.log'', reg ''abcdefghij''), (''app.log'', reg [])]) ''k''"
  (is "?M \<and> ?R \<and> ?C \<and> ?N")
proof (intro conjI)
  let ?w = "ex_writer\<lparr>cur_file := Some ''app.log'', cur_size := 10\<rparr>"
  let ?es = "[(''app.log'', reg ''abcdefghij'')]"
  have l: "int (length ''k'') \<le> maxSize ?w" "int (length ''k'') \<le> maxSize ex_writer"
    by (simp_all add: ex_writer_def)
  have t: "(cur_file ?w = None \<and> fst (mill ?w s) = None
              \<and> maxSize ?w \<le> wrap64 (int (length (content (reg ''abcdefghij''))) + int (length ''k'')))
          \<or> (cur_file ?w \<noteq> None \<and> maxSize ?w < wrap64 (cur_size ?w + int (length ''k'')))" for s
    by (simp add: ex_writer_def wrap64_def)
  have t': "(cur_file ex_writer = None \<and> fst (mill ex_writer s) = None
              \<and> maxSize ex_writer \<le> wrap64 (int (length (content (reg ''abcdefghij''))) + int (length ''k'')))
          \<or> (cur_file ex_writer \<noteq> None
              \<and> maxSize ex_writer < wrap64 (cur_size ex_writer + int (length ''k'')))" for s
    by (simp add: ex_writer_def wrap64_def reg_def mill_off)
  have a: "lookup ((ex_world ?es)\<lparr>faults := f\<rparr>) (active ?w) = Some (reg ''abcdefghij'')"
    "lookup ((ex_world ?es)\<lparr>faults := f\<rparr>) (active ex_writer) = Some (reg ''abcdefghij'')" for f
    by (simp_all add: ex_defs active_def lookup_def entries_def)
  have w0: "?w\<lparr>cur_file := None\<rparr> = ex_writer\<lparr>cur_file := None, cur_size := 10\<rparr>"
    "ex_writer\<lparr>cur_file := None\<rparr> = ex_writer"
    by (simp_all add: ex_writer_def)
  from rotation_failure_policy[OF l(1) t a(1)[of "(\<lambda>k. [])(OpMkdirAll := [Some 0])"],
      where c = 0 and fs = "[]"]
  show ?M by (simp add: w0)
  from rotation_failure_policy[OF l(1) t a(1)[of "(\<lambda>k. [])(OpRename := [Some 0])"],
      where c = 0 and fs = "[]"]
  show ?R by (simp add: w0)
  from rotation_failure_policy[OF l(2) t' a(2)[of "(\<lambda>k. [])(OpCreate := [Some 0])"],
      where c = 0 and fs = "[]"]
  show ?C by (simp add: w0)
  from rotation_failure_policy[OF l(1) t a(1)[of "(\<lambda>k. [])(OpRename := [Some 0])"],
      where c = 0 and fs = "[]"]
  have "\<And>q s2 w2 s3 r2. int (length q) \<le> maxSize ?w \<Longrightarrow>
          openExistingOrNew (?w\<lparr>cur_file := None\<rparr>) s2 (length q) = (w2, s3, r2) \<Longrightarrow>
          Write (?w\<lparr>cur_file := None\<rparr>) s2 q
            = (case r2 of Some e2 \<Rightarrow> (w2, s3, 0, Some e2) | None \<Rightarrow> Write w2 s3 q)"
    by simp
  from this[OF l(1) reopen_after_failure[folded w0(1)]] show ?N by (simp add: w0)
qed

section \<open>A failed append-open\<close>

text \<open>
  C10. The writer has no handle, the active file exists and its size plus the length of
  the write is below \<open>maxSize\<close>, and opening it for appending fails; no other
  system call fails, and the sweep that precedes the open ends without a panic, in the
  world \<open>sm\<close>. Then \<^verbatim>\<open>Write\<close> returns no error and the full count: the
  old file is now the backup with the first free index \<open>j\<close> of the day, the active
  file is a new file that holds exactly the bytes written, with the permission bits of
  the old one that are not in the umask, and the backup is handed to the compression
  goroutine exactly when compression is on.
\<close>

theorem append_open_failure_rotates:
  assumes n: "cur_file w = None"
    and m: "mill w s = (None, sm)"
    and a: "lookup s (active w) = Some nd"
    and z: "int (length (content nd)) + int (length p) < maxSize w"
    and b: "maxSize w < 2 ^ 63"
    and o: "fst (os_OpenAppend (active w) sm) = None"
    and q: "faults s OpStat = []" "faults s OpMkdirAll = []" "faults s OpRename = []"
      "faults s OpCreate = []" "faults s OpWrite = []"
  shows "\<exists>j s1. 1 \<le> j
     \<and> Write w s p
         = (w\<lparr>cur_file := Some (active w), cur_size := int (length p)\<rparr>, s1, length p, None)
     \<and> lookup sm (candidate (filename w) (clock s) j) = None
     \<and> (\<forall>k. 1 \<le> k \<longrightarrow> k < j \<longrightarrow> lookup sm (candidate (filename w) (clock s) k) \<noteq> None)
     \<and> lookup s1 = ((lookup sm)(candidate (filename w) (clock s) j \<mapsto> nd))
                      (active w \<mapsto> \<lparr>content = p, perm = perm nd - (perm nd AND umask s), isdir = False\<rparr>)
     \<and> spawned s1 = (if compress w then spawned s @ [candidate (filename w) (clock s) j]
                      else spawned s)"
proof -
  note fr = mill_frame[OF m]
  from fr q have qm: "faults sm OpStat = []" "faults sm OpMkdirAll = []" "faults sm OpRename = []"
    "faults sm OpCreate = []" "faults sm OpWrite = []" by simp_all
  from mill_active[OF m] a have am: "lookup sm (active w) = Some nd" by simp
  have st: "os_Stat (Base (filename w)) sm = (Found nd, sm)"
    using qm(1) am by (simp add: os_Stat_quiet active_def)
  obtain sc where oa: "os_OpenAppend (Base (filename w)) sm = (None, sc)"
    using o by (cases "os_OpenAppend (active w) sm") (simp add: active_def)
  note sp = os_OpenAppend_spec[OF oa]
  from sp have lc: "lookup sc = lookup sm" by (intro lookup_dir) simp
  from os_OpenAppend_faults[OF oa] qm
  have qc: "faults sc OpMkdirAll = []" "faults sc OpStat = []" "faults sc OpRename = []"
    "faults sc OpCreate = []" "faults sc OpWrite = []" by simp_all
  have "wrap64 (int (length (content nd)) + int (length p))
      = int (length (content nd)) + int (length p)" using z b by (intro wrap64_id) simp_all
  with z have sz: "\<not> maxSize w \<le> wrap64 (int (length (content nd)) + int (length p))" by simp
  have oe: "openExistingOrNew w s (length p) = openNew w sc"
    using m st sz oa by (simp add: openExistingOrNew_def)
  have uc: "umask sc = umask s" using mill_umask[OF m] os_OpenAppend_umask[OF oa] by simp
  from am lc have ac: "lookup sc (active w) = Some nd" by simp
  from z have l: "int (length p) \<le> maxSize w" by simp
  obtain j s2 where j: "1 \<le> j"
    "openNew w sc = (w\<lparr>cur_file := Some (active w), cur_size := 0\<rparr>, s2, None)"
    "lookup sc (candidate (filename w) (clock sc) j) = None"
    "\<forall>k. 1 \<le> k \<longrightarrow> k < j \<longrightarrow> lookup sc (candidate (filename w) (clock sc) k) \<noteq> None"
    "lookup s2 = ((lookup sc)(candidate (filename w) (clock sc) j \<mapsto> nd))
                   (active w \<mapsto> \<lparr>content = [], perm = perm nd - (perm nd AND umask sc), isdir = False\<rparr>)"
    "clock s2 = clock sc" "faults s2 = faults sc"
    "spawned s2 = (if compress w then spawned sc @ [candidate (filename w) (clock sc) j]
                   else spawned sc)"
    "umask s2 = umask sc"
    by (rule openNew_quiet[OF qc(1-4) ac])
  from sp fr have ck: "clock sc = clock s" and sk: "spawned sc = spawned s" by simp_all
  have f2: "faults s2 OpWrite = []" using j(7) qc(5) by simp
  have a2: "lookup s2 (active w) = Some \<lparr>content = [], perm = perm nd - (perm nd AND umask sc), isdir = False\<rparr>"
    using j(5) by simp
  obtain s1 where s1:
    "Write (w\<lparr>cur_file := Some (active w), cur_size := 0\<rparr>) s2 p
       = (w\<lparr>cur_file := Some (active w), cur_size := int (length p)\<rparr>, s1, length p, None)"
    "lookup s1 = (lookup s2)(active w \<mapsto> \<lparr>content = p, perm = perm nd - (perm nd AND umask sc), isdir = False\<rparr>)"
    "clock s1 = clock s2" "faults s1 = faults s2" "spawned s1 = spawned s2"
    by (rule Write_on_fresh[OF refl l b f2 a2])
  have "Write w s p = Write (w\<lparr>cur_file := Some (active w), cur_size := 0\<rparr>) s2 p"
    using n l oe j(2) by (intro Write_open_then_write) simp_all
  with s1(1) have W: "Write w s p
      = (w\<lparr>cur_file := Some (active w), cur_size := int (length p)\<rparr>, s1, length p, None)"
    by simp
  have L: "lookup s1 = ((lookup sm)(candidate (filename w) (clock s) j \<mapsto> nd))
                      (active w \<mapsto> \<lparr>content = p, perm = perm nd - (perm nd AND umask s), isdir = False\<rparr>)"
    using s1(2) j(5) lc ck uc by simp
  have S: "spawned s1 = (if compress w then spawned s @ [candidate (filename w) (clock s) j]
                      else spawned s)"
    using s1(5) j(8) ck sk by simp
  from j(1,3,4) lc ck W L S show ?thesis by (intro exI[of _ j] exI[of _ s1]) simp
qed

text \<open>
  The theorem at a three-byte file with mode 0666 under the umask 022, compression on and
  a write of four bytes, and the result of that write: the backup keeps the mode 0666 and
  the new file has the mode 0644.
\<close>

theorem append_open_failure_rotates_witness:
  "(\<exists>j s1. 1 \<le> j
     \<and> Write (ex_writer\<lparr>compress := True\<rparr>)
          ((ex_world [(''app.log'', \<lparr>content = ''old'', perm = 438, isdir = False\<rparr>)])
             \<lparr>faults := (\<lambda>k. [])(OpOpenAppend := [Some 0])\<rparr>) ''0123''
         = (ex_writer\<lparr>compress := True, cur_file := Some (active (ex_writer\<lparr>compress := True\<rparr>)),
              cur_size := int (length ''0123'')\<rparr>, s1, length ''0123'', None)
     \<and> lookup ((ex_world [(''app.log'', \<lparr>content = ''old'', perm = 438, isdir = False\<rparr>)])
             \<lparr>faults := (\<lambda>k. [])(OpOpenAppend := [Some 0])\<rparr>)
          (candidate (filename (ex_writer\<lparr>compress := True\<rparr>))
            (clock ((ex_world [(''app.log'', \<lparr>content = ''old'', perm = 438, isdir = False\<rparr>)])
             \<lparr>faults := (\<lambda>k. [])(OpOpenAppend := [Some 0])\<rparr>)) j) = None
     \<and> (\<forall>k. 1 \<le> k \<longrightarrow> k < j \<longrightarrow>
          lookup ((ex_world [(''app.log'', \<lparr>content = ''old'', perm = 438, isdir = False\<rparr>)])
             \<lparr>faults := (\<lambda>k. [])(OpOpenAppend := [Some 0])\<rparr>)
           (candidate (filename (ex_writer\<lparr>compress := True\<rparr>))
            (clock ((ex_world [(''app.log'', \<lparr>content = ''old'', perm = 438, isdir = False\<rparr>)])
             \<lparr>faults := (\<lambda>k. [])(OpOpenAppend := [Some 0])\<rparr>)) k) \<noteq> None)
     \<and> lookup s1
         = ((lookup ((ex_world [(''app.log'', \<lparr>content = ''old'', perm = 438, isdir = False\<rparr>)])
             \<lparr>faults := (\<lambda>k. [])(OpOpenAppend := [Some 0])\<rparr>))
             (candidate (filename (ex_writer\<lparr>compress := True\<rparr>))
               (clock ((ex_world [(''app.log'', \<lparr>content = ''old'', perm = 438, isdir = False\<rparr>)])
                 \<lparr>faults := (\<lambda>k. [])(OpOpenAppend := [Some 0])\<rparr>)) j
              \<mapsto> \<lparr>content = ''old'', perm = 438, isdir = False\<rparr>))
            (active (ex_writer\<lparr>compress := True\<rparr>)
              \<mapsto> \<lparr>content = ''0123'',
                   perm = perm \<lparr>content = ''old'', perm = 438, isdir = False\<rparr>
                     - (perm \<lparr>content = ''old'', perm = 438, isdir = False\<rparr>
                        AND umask ((ex_world [(''app.log'',
                              \<lparr>content = ''old'', perm = 438, isdir = False\<rparr>)])
                            \<lparr>faults := (\<lambda>k. [])(OpOpenAppend := [Some 0])\<rparr>)),
                   isdir = False\<rparr>)
     \<and> spawned s1
         = (if compress (ex_writer\<lparr>compress := True\<rparr>)
            then spawned ((ex_world [(''app.log'', \<lparr>content = ''old'', perm = 438, isdir = False\<rparr>)])
                   \<lparr>faults := (\<lambda>k. [])(OpOpenAppend := [Some 0])\<rparr>)
                 @ [candidate (filename (ex_writer\<lparr>compress := True\<rparr>))
                     (clock ((ex_world [(''app.log'', \<lparr>content = ''old'', perm = 438, isdir = False\<rparr>)])
                       \<lparr>faults := (\<lambda>k. [])(OpOpenAppend := [Some 0])\<rparr>)) j]
            else spawned ((ex_world [(''app.log'', \<lparr>content = ''old'', perm = 438, isdir = False\<rparr>)])
                   \<lparr>faults := (\<lambda>k. [])(OpOpenAppend := [Some 0])\<rparr>)))
   \<and> Write (ex_writer\<lparr>compress := True\<rparr>)
        ((ex_world [(''app.log'', \<lparr>content = ''old'', perm = 438, isdir = False\<rparr>)])
           \<lparr>faults := (\<lambda>k. [])(OpOpenAppend := [Some 0])\<rparr>) ''0123''
     = (ex_writer\<lparr>compress := True, cur_file := Some ''app.log'', cur_size := 4\<rparr>,
        (ex_world [(''app-2024-01-15-1.log'', \<lparr>content = ''old'', perm = 438, isdir = False\<rparr>),
                   (''app.log'', \<lparr>content = ''0123'', perm = 420, isdir = False\<rparr>)])
          \<lparr>spawned := [''app-2024-01-15-1.log'']\<rparr>,
        4, None)"
  (is "?A \<and> ?B")
proof
  show ?A
    by (rule append_open_failure_rotates)
      (simp_all add: ex_defs mill_off active_def lookup_def entries_def os_OpenAppend_def fault_def)
  show ?B
    by (simp add: ex_defs writer_defs os_defs Format_noon itoa.simps digit_def fun_eq_iff)
qed

section \<open>Backup names and the retention sweep\<close>

text \<open>
  C1. The claim is that a backup name made by \<^verbatim>\<open>backupName\<close> is accepted by
  \<^verbatim>\<open>timeFromName\<close> with the prefix and extension of \<^verbatim>\<open>prefixAndExt\<close>, and
  parses to the rotation date. The code does the opposite, for every file name, time and
  directory: the prefix of \<^verbatim>\<open>prefixAndExt\<close> already ends with the dash, so the parts
  joined for the date are month, day and index, and \<^verbatim>\<open>time.Parse\<close> rejects them.
  (\<open>Format\<close> is the date of \<open>t\<close> for times from 1970 on.)
\<close>

theorem backupName_rejected_by_timeFromName:
  "timeFromName (fst (backupName (filename w) t s)) (fst (prefixAndExt w)) (snd (prefixAndExt w))
     = Inl ErrParse"
proof -
  let ?base = "Base (filename w)"
  let ?p = "take (length ?base - length (Ext ?base)) ?base"
  obtain j where
    "fst (backupName_loop ?p (Format t) (Ext ?base) 1 s) = backupEntry ?p (Format t) j (Ext ?base)"
    using backupName_loop_shape by blast
  then show ?thesis
    by (simp add: backupName_def prefixAndExt_def Let_def timeFromName_backupEntry)
qed

theorem backupName_rejected_by_timeFromName_witness:
  "fst (backupName ''logs/app.log'' noon (ex_world [])) = ''app-2024-01-15-1.log''
   \<and> prefixAndExt ex_writer = (''app-'', ''.log'')
   \<and> timeFromName ''app-2024-01-15-1.log'' ''app-'' ''.log'' = Inl ErrParse"
proof -
  have n: "fst (backupName ''logs/app.log'' noon (ex_world [])) = ''app-2024-01-15-1.log''"
    by (simp add: backupName_def backupName_loop.simps backupEntry_def Format_noon itoa.simps
        digit_def os_defs ex_defs)
  have pe: "prefixAndExt ex_writer = (''app-'', ''.log'')"
    by (simp add: prefixAndExt_def ex_writer_def)
  from backupName_rejected_by_timeFromName [of ex_writer noon "ex_world []"] n pe
  show ?thesis by (simp add: ex_writer_def)
qed

text \<open>
  C2. The claim is that with \<open>maxBackups = 2\<close> exactly two backups remain after five
  rotations, the two latest. In the code the sweep lists none of the writer's backups, so
  all five remain: six writes of 10 bytes on six days, with a threshold of 10 bytes, end
  with five backups beside the active file.
\<close>

theorem retention_by_count_keeps_all:
  "map (\<lambda>(w, s, r). (map fst (entries s), r))
     (Writes (ex_writer\<lparr>maxBackups := 2\<rparr>) (ex_world [])
        [(noon, ''aaaaaaaaaa''), (noon + day, ''bbbbbbbbbb''),
         (noon + 2 * day, ''cccccccccc''), (noon + 3 * day, ''dddddddddd''),
         (noon + 4 * day, ''eeeeeeeeee''), (noon + 5 * day, ''ffffffffff'')]) ! 5
   = ([''app-2024-01-16-1.log'', ''app-2024-01-17-1.log'', ''app-2024-01-18-1.log'',
       ''app-2024-01-19-1.log'', ''app-2024-01-20-1.log'', ''app.log''], 10, None)"
proof -
  have f: "Format (noon + day) = ''2024-01-16''" "Format (noon + 2 * day) = ''2024-01-17''"
    "Format (noon + 3 * day) = ''2024-01-18''" "Format (noon + 4 * day) = ''2024-01-19''"
    "Format (noon + 5 * day) = ''2024-01-20''"
    by (simp_all add: time_defs noon_def day_def)
  show ?thesis
    by (simp add: ex_defs writer_defs os_defs f Format_noon itoa.simps digit_def)
qed

text \<open>
  C3. The claim is that with \<open>maxAge = 1\<close> the sweep deletes a backup dated three days
  ago and keeps the one of today. In the code the sweep at noon of 2024-01-15 deletes
  neither: it leaves the directory as it is.
\<close>

theorem retention_by_age_keeps_old:
  "mill (ex_writer\<lparr>maxAge := 1\<rparr>)
     (ex_world [(''app-2024-01-12-1.log'', reg ''old''),
                (''app-2024-01-15-1.log'', reg ''new''), (''app.log'', reg ''live'')])
   = (None, ex_world [(''app-2024-01-12-1.log'', reg ''old''),
                      (''app-2024-01-15-1.log'', reg ''new''), (''app.log'', reg ''live'')])"
  by (simp add: ex_defs writer_defs os_defs)

section \<open>Construction\<close>

lemma NewRotateWriter_maxSize:
  "- (2 ^ 43) \<le> m \<Longrightarrow> m \<le> 0 \<Longrightarrow> maxSize (NewRotateWriter f m a b c) = m * 1048576"
proof -
  assume l: "- (2 ^ 43) \<le> m" and u: "m \<le> 0"
  have 1: "wrap64 (m * 1024) = m * 1024" using l u by (intro wrap64_id) simp_all
  have 2: "wrap64 (m * 1024 * 1024) = m * 1024 * 1024" using l u by (intro wrap64_id) simp_all
  have "wrap64 (wrap64 (m * 1024) * 1024) = m * 1024 * 1024" by (simp only: 1 2)
  then show ?thesis by (simp add: NewRotateWriter_def)
qed

text \<open>
  C8. The claim is that a zero or negative size is reported as a configuration error when
  the writer is constructed, or at the latest at its first use. \<^verbatim>\<open>NewRotateWriter\<close>
  returns a writer for every argument and has no error result. With size 0 the first
  use can even succeed: an empty write creates the log file and returns no error; a write
  of one byte fails with the write-too-long error.
\<close>

theorem NewRotateWriter_zero_accepted:
  "maxSize (NewRotateWriter ''logs/app.log'' 0 0 0 False) = 0
   \<and> Write (NewRotateWriter ''logs/app.log'' 0 0 0 False) (ex_world []) []
       = (NewRotateWriter ''logs/app.log'' 0 0 0 False\<lparr>cur_file := Some ''app.log''\<rparr>,
          ex_world [(''app.log'', reg [])], 0, None)
   \<and> Write (NewRotateWriter ''logs/app.log'' 0 0 0 False) (ex_world []) ''x''
       = (NewRotateWriter ''logs/app.log'' 0 0 0 False, ex_world [], 0,
          Some (ErrWriteTooLong 1 0))"
  by (simp add: NewRotateWriter_def ex_defs writer_defs os_defs)

text \<open>
  C8, amended. \<^verbatim>\<open>NewRotateWriter\<close> accepts a zero or negative size. The threshold is
  then the size times \<open>2\<^sup>2\<^sup>0\<close>, not positive (for sizes from \<open>-2\<^sup>4\<^sup>3\<close>, where the
  product does not wrap), and every write of at least one byte fails with the
  write-too-long error, the error of any oversized write, and changes nothing.
\<close>

theorem NewRotateWriter_nonpositive_size:
  "- (2 ^ 43) \<le> m \<Longrightarrow> m \<le> 0 \<Longrightarrow> p \<noteq> [] \<Longrightarrow>
   Write (NewRotateWriter f m a b c) s p
     = (NewRotateWriter f m a b c, s, 0, Some (ErrWriteTooLong (int (length p)) (m * 1048576)))"
proof -
  assume l: "- (2 ^ 43) \<le> m" and u: "m \<le> 0" and p: "p \<noteq> []"
  have ms: "maxSize (NewRotateWriter f m a b c) = m * 1048576"
    using l u by (rule NewRotateWriter_maxSize)
  have pos: "0 < int (length p)" using p by simp
  have neg: "m * 1048576 \<le> 0" using u by simp
  from pos neg have "m * 1048576 < int (length p)" by linarith
  then have "maxSize (NewRotateWriter f m a b c) < int (length p)" by (simp only: ms)
  then show ?thesis by (simp add: Write_def ms)
qed

theorem NewRotateWriter_nonpositive_size_witness:
  "- (2 ^ 43) \<le> (- 1 :: int) \<and> (- 1 :: int) \<le> 0 \<and> ''x'' \<noteq> []
   \<and> Write (NewRotateWriter ''logs/app.log'' (- 1) 0 0 False) (ex_world []) ''x''
       = (NewRotateWriter ''logs/app.log'' (- 1) 0 0 False, ex_world [], 0,
          Some (ErrWriteTooLong 1 (- 1048576)))"
  using NewRotateWriter_nonpositive_size [of "- 1" "''x''" "''logs/app.log''" 0 0 False "ex_world []"]
  by simp

end
